theory Spec2Isabelle
  imports Main "HOL-Library.AList"
begin

section \<open>Strings of the dataset\<close>

text \<open>
  A string of the dataset is modelled as a \<^typ>\<open>string\<close>; a character stands for the code
  unit of the same number, U+0000 to U+00FF. The validator compares such strings, trims
  them and searches them. The white space of \<open>String.prototype.trim\<close> in that range is
  TAB, LF, VT, FF, CR, SPACE and the no-break space U+00A0.
\<close>

definition is_space :: "char \<Rightarrow> bool" where
  "is_space c \<longleftrightarrow>
     c \<in> set [CHR 0x09, CHR 0x0A, CHR 0x0B, CHR 0x0C, CHR 0x0D, CHR 0x20, CHR 0xA0]"

definition trim :: "string \<Rightarrow> string" where
  "trim s = rev (dropWhile is_space (rev (dropWhile is_space s)))"

definition startsWith :: "string \<Rightarrow> string \<Rightarrow> bool" where
  "startsWith s p \<longleftrightarrow> take (length p) s = p"

definition endsWith :: "string \<Rightarrow> string \<Rightarrow> bool" where
  "endsWith s p \<longleftrightarrow> startsWith (rev s) (rev p)"

fun includes_str :: "string \<Rightarrow> string \<Rightarrow> bool" where
  "includes_str [] p = (p = [])"
| "includes_str (c # cs) p = (startsWith (c # cs) p \<or> includes_str cs p)"

text \<open>
  \<open>s.replace(p, '')\<close> with a string pattern removes the first occurrence of \<open>p\<close> only.
\<close>

fun remove_first :: "string \<Rightarrow> string \<Rightarrow> string" where
  "remove_first p [] = []"
| "remove_first p (c # cs) =
     (if startsWith (c # cs) p then drop (length p) (c # cs) else c # remove_first p cs)"

section \<open>The slug generator (scripts/add-slugs.ts)\<close>

text \<open>
  \<open>slugify\<close> takes any JavaScript string. Such a string is here the list of its UTF-16
  code units, each the number it stands for, so that every string is covered. The regular
  expressions of \<open>slugify\<close> have no \<open>u\<close> flag and work on code units: \<open>\s\<close> is the white
  space and the line terminators of ECMAScript, the same set that \<open>trim\<close> strips, and
  \<open>\w\<close> is \<open>[A-Za-z0-9_]\<close>.
\<close>

definition is_space_unit :: "nat \<Rightarrow> bool" where
  "is_space_unit u \<longleftrightarrow>
     u \<in> set [0x09, 0x0A, 0x0B, 0x0C, 0x0D, 0x20, 0xA0, 0x1680, 0x2028, 0x2029, 0x202F,
               0x205F, 0x3000, 0xFEFF] \<or>
     0x2000 \<le> u \<and> u \<le> 0x200A"

definition is_upper_unit :: "nat \<Rightarrow> bool" where
  "is_upper_unit u \<longleftrightarrow> 0x41 \<le> u \<and> u \<le> 0x5A"

definition is_lower_unit :: "nat \<Rightarrow> bool" where
  "is_lower_unit u \<longleftrightarrow> 0x61 \<le> u \<and> u \<le> 0x7A"

definition is_digit_unit :: "nat \<Rightarrow> bool" where
  "is_digit_unit u \<longleftrightarrow> 0x30 \<le> u \<and> u \<le> 0x39"

definition underscore :: nat where
  "underscore = 0x5F"

definition hyphen :: nat where
  "hyphen = 0x2D"

definition is_word_unit :: "nat \<Rightarrow> bool" where
  "is_word_unit u \<longleftrightarrow> is_upper_unit u \<or> is_lower_unit u \<or> is_digit_unit u \<or> u = underscore"

definition is_hyphen :: "nat \<Rightarrow> bool" where
  "is_hyphen u \<longleftrightarrow> u = hyphen"

definition trim_units :: "nat list \<Rightarrow> nat list" where
  "trim_units s = rev (dropWhile is_space_unit (rev (dropWhile is_space_unit s)))"

text \<open>
  \<open>s.replace(/C{n,}/g, rep)\<close> for a character class \<open>C\<close> and \<open>n \<ge> 1\<close>: scanning from the
  left, every maximal run of at least \<open>n\<close> code units of the class is replaced by \<open>rep\<close>;
  a shorter run is kept as it is.
\<close>

function replace_runs :: "('a \<Rightarrow> bool) \<Rightarrow> nat \<Rightarrow> 'a list \<Rightarrow> 'a list \<Rightarrow> 'a list" where
  "replace_runs P n rep [] = []"
| "replace_runs P n rep (c # cs) =
     (if P c \<and> n \<le> Suc (length (takeWhile P cs))
      then rep @ replace_runs P n rep (dropWhile P cs)
      else c # replace_runs P n rep cs)"
  by pat_completeness auto
termination
  by (relation "measure (\<lambda>(P, n, rep, s). length s)")
     (auto simp: length_dropWhile_le less_Suc_eq_le)

text \<open>
  \<open>String.prototype.toLowerCase\<close> is the runtime's and follows the case mappings of
  Unicode, which are no part of the repository and are not one code unit for one code
  unit (U+0130 becomes the two units U+0069 U+0307, and the Kelvin sign U+212A becomes
  \<open>k\<close>). It is the parameter \<open>toLowerCase\<close> of \<open>slugify\<close>.
\<close>

definition slugify :: "(nat list \<Rightarrow> nat list) \<Rightarrow> nat list \<Rightarrow> nat list" where
  "slugify toLowerCase text =
     (let s1 = toLowerCase text;
          s2 = trim_units s1;
          s3 = replace_runs is_space_unit 1 [hyphen] s2;
          s4 = replace_runs (\<lambda>u. \<not> (is_word_unit u \<or> is_hyphen u)) 1 [] s3;
          s5 = replace_runs is_hyphen 2 [hyphen] s4;
          s6 = dropWhile is_hyphen s5
      in rev (dropWhile is_hyphen (rev s6)))"

section \<open>JSON values\<close>

text \<open>
  The value \<open>JSON.parse\<close> returns. The validator looks at a number's truthiness and at its
  \<open>typeof\<close> only, so a number is an integer here. An object is the list of its
  properties, one entry for each name.
  A JavaScript value that may be \<open>undefined\<close> is a \<open>json option\<close>, \<open>None\<close> for
  \<open>undefined\<close>.
\<close>

datatype json =
    JNull
  | JBool bool
  | JNum int
  | JStr string
  | JArr "json list"
  | JObj "(string \<times> json) list"

type_synonym jsval = "json option"

datatype error = ReadError | TypeError

text \<open>
  Reading one of the properties \<open>tools\<close>, \<open>content\<close>, \<open>category\<close>, \<open>title\<close>, \<open>slug\<close>,
  \<open>url\<close>: no prototype defines them, so every value that is not an object gives
  \<open>undefined\<close>, and reading a property of \<open>null\<close> throws.
\<close>

fun field :: "json \<Rightarrow> string \<Rightarrow> jsval" where
  "field (JObj kvs) k = map_of kvs k"
| "field _ k = None"

definition getProp :: "json \<Rightarrow> string \<Rightarrow> error + jsval" where
  "getProp v k = (if v = JNull then Inl TypeError else Inr (field v k))"

fun truthy :: "jsval \<Rightarrow> bool" where
  "truthy None = False"
| "truthy (Some JNull) = False"
| "truthy (Some (JBool b)) = b"
| "truthy (Some (JNum n)) = (n \<noteq> 0)"
| "truthy (Some (JStr s)) = (s \<noteq> [])"
| "truthy (Some (JArr xs)) = True"
| "truthy (Some (JObj kvs)) = True"

fun isArray :: "jsval \<Rightarrow> bool" where
  "isArray (Some (JArr xs)) = True"
| "isArray _ = False"

fun elems :: "jsval \<Rightarrow> json list" where
  "elems (Some (JArr xs)) = xs"
| "elems _ = []"

fun typeof :: "json \<Rightarrow> string" where
  "typeof JNull = ''object''"
| "typeof (JBool b) = ''boolean''"
| "typeof (JNum n) = ''number''"
| "typeof (JStr s) = ''string''"
| "typeof (JArr xs) = ''object''"
| "typeof (JObj kvs) = ''object''"

section \<open>The validator's state\<close>

text \<open>
  \<open>toolInfo\<close>: the object pushed into the buckets and into the URL map. Its \<open>url\<close> is
  \<open>None\<close> when the object has no such property.
\<close>

record toolInfo =
  title :: jsval
  category :: jsval
  slug :: jsval
  url :: "jsval option"

text \<open>
  \<open>urlMap\<close> is a JavaScript \<open>Map\<close>: its entries in the order in which their keys were
  first set. The four buckets are the fields of \<open>issues\<close>; an \<open>invalid_structure\<close> entry
  is the pair of \<open>category\<close> and \<open>data\<close>.
\<close>

record state =
  urlMap :: "(string \<times> toolInfo list) list"
  missing_url :: "toolInfo list"
  missing_protocol :: "toolInfo list"
  missing_ref :: "toolInfo list"
  invalid_structure :: "(string \<times> json) list"
  totalTools :: nat
  splitToolsChecked :: nat

definition init :: state where
  "init = \<lparr>urlMap = [], missing_url = [], missing_protocol = [], missing_ref = [],
           invalid_structure = [], totalTools = 0, splitToolsChecked = 0\<rparr>"

definition REQUIRED_REF :: string where
  "REQUIRED_REF = ''?ref=riseofmachine.com''"

text \<open>\<open>forEach\<close> with a callback that may throw: the first exception ends the loop.\<close>

fun forEach :: "('a \<Rightarrow> 's \<Rightarrow> error + 's) \<Rightarrow> 'a list \<Rightarrow> 's \<Rightarrow> error + 's" where
  "forEach f [] s = Inr s"
| "forEach f (x # xs) s = (case f x s of Inl e \<Rightarrow> Inl e | Inr s' \<Rightarrow> forEach f xs s')"

section \<open>The primary dataset (lines 30 to 65)\<close>

text \<open>\<open>tool.url?.trim()\<close>: \<open>undefined\<close> for an absent or null url, a \<open>TypeError\<close> for
  a url that is not a string.\<close>

fun trimmed_url :: "jsval \<Rightarrow> error + string option" where
  "trimmed_url None = Inr None"
| "trimmed_url (Some JNull) = Inr None"
| "trimmed_url (Some (JStr s)) = Inr (Some (trim s))"
| "trimmed_url (Some _) = Inl TypeError"

text \<open>Lines 59 to 62: \<open>urlMap.get(url).push(toolInfo)\<close>, after the key was set to an
  empty array when it was new.\<close>

definition track :: "string \<Rightarrow> toolInfo \<Rightarrow> (string \<times> toolInfo list) list
    \<Rightarrow> (string \<times> toolInfo list) list" where
  "track u info m =
     (let m' = (if map_of m u = None then AList.update u [] m else m)
      in AList.update u (the (map_of m' u) @ [info]) m')"

definition primary_tool :: "json \<Rightarrow> json \<Rightarrow> state \<Rightarrow> error + state" where
  "primary_tool cat tool st =
     (let st1 = st\<lparr>totalTools := totalTools st + 1\<rparr> in
      case getProp tool ''url'' of
        Inl e \<Rightarrow> Inl e
      | Inr raw \<Rightarrow>
         (case trimmed_url raw of
            Inl e \<Rightarrow> Inl e
          | Inr u \<Rightarrow>
             (let info = \<lparr>title = field tool ''title'', category = field cat ''category'',
                          slug = field tool ''slug'', url = None\<rparr>
              in case u of
                   None \<Rightarrow> Inr (st1\<lparr>missing_url := missing_url st1 @ [info]\<rparr>)
                 | Some s \<Rightarrow>
                    if s = [] then Inr (st1\<lparr>missing_url := missing_url st1 @ [info]\<rparr>)
                    else
                      (let with_url = info\<lparr>url := Some (Some (JStr s))\<rparr>;
                           st2 = (if \<not> startsWith s ''http://'' \<and> \<not> startsWith s ''https://''
                                  then st1\<lparr>missing_protocol := missing_protocol st1 @ [with_url]\<rparr>
                                  else st1);
                           st3 = (if \<not> includes_str s REQUIRED_REF
                                  then st2\<lparr>missing_ref := missing_ref st2 @ [with_url]\<rparr>
                                  else st2)
                       in Inr (st3\<lparr>urlMap := track s info (urlMap st3)\<rparr>)))))"

definition primary_category :: "json \<Rightarrow> state \<Rightarrow> error + state" where
  "primary_category cat st =
     (case getProp cat ''content'' of
        Inl e \<Rightarrow> Inl e
      | Inr content \<Rightarrow>
          if truthy content \<and> isArray content
          then forEach (primary_tool cat) (elems content) st
          else Inr st)"

text \<open>Lines 68 to 70. \<open>Array.prototype.sort\<close> is stable: an insertion sort that puts an
  element before the first later one that the comparison does not order before it.\<close>

fun insert_by :: "('a \<Rightarrow> 'a \<Rightarrow> int) \<Rightarrow> 'a \<Rightarrow> 'a list \<Rightarrow> 'a list" where
  "insert_by cmp x [] = [x]"
| "insert_by cmp x (y # ys) =
     (if cmp x y \<le> 0 then x # y # ys else y # insert_by cmp x ys)"

definition sort_by :: "('a \<Rightarrow> 'a \<Rightarrow> int) \<Rightarrow> 'a list \<Rightarrow> 'a list" where
  "sort_by cmp xs = foldr (insert_by cmp) xs []"

definition by_count :: "string \<times> toolInfo list \<Rightarrow> string \<times> toolInfo list \<Rightarrow> int" where
  "by_count a b = int (length (snd b)) - int (length (snd a))"

definition duplicates :: "(string \<times> toolInfo list) list \<Rightarrow> (string \<times> toolInfo list) list" where
  "duplicates m = sort_by by_count (filter (\<lambda>(u, tools). length tools > 1) m)"

section \<open>The split category files (lines 73 to 111)\<close>

text \<open>
  The directory \<open>src/data/tools\<close>: absent, not readable as a directory, or its entries,
  each a name with what \<open>JSON.parse(fs.readFileSync(...))\<close> gives for it (\<open>None\<close> when
  that throws).
\<close>

datatype toolsDir = Absent | Unreadable | Entries "(string \<times> json option) list"

definition split_tool :: "string \<Rightarrow> json \<Rightarrow> state \<Rightarrow> error + state" where
  "split_tool categoryName tool st =
     (let st1 = st\<lparr>splitToolsChecked := splitToolsChecked st + 1\<rparr> in
      case getProp tool ''title'' of
        Inl e \<Rightarrow> Inl e
      | Inr t \<Rightarrow>
         (let info = \<lparr>title = t, category = Some (JStr categoryName),
                      slug = field tool ''slug'', url = Some (field tool ''url'')\<rparr>
          in if \<not> truthy (field tool ''url'')
             then Inr (st1\<lparr>missing_url := missing_url st1 @ [info]\<rparr>)
             else
               (case field tool ''url'' of
                  Some (JStr s) \<Rightarrow>
                    (let st2 = (if \<not> startsWith s ''http://'' \<and> \<not> startsWith s ''https://''
                                then st1\<lparr>missing_protocol := missing_protocol st1 @ [info]\<rparr>
                                else st1);
                         st3 = (if \<not> includes_str s REQUIRED_REF
                                then st2\<lparr>missing_ref := missing_ref st2 @ [info]\<rparr>
                                else st2)
                     in Inr st3)
                | _ \<Rightarrow> Inl TypeError)))"

definition split_file :: "string \<times> json option \<Rightarrow> state \<Rightarrow> error + state" where
  "split_file f st =
     (case snd f of
        None \<Rightarrow> Inl ReadError
      | Some categoryData \<Rightarrow>
         (let categoryName = remove_first ''.json'' (fst f)
          in if \<not> isArray (Some categoryData)
             then Inr (st\<lparr>invalid_structure :=
                             invalid_structure st @ [(categoryName, categoryData)]\<rparr>)
             else forEach (split_tool categoryName) (elems (Some categoryData)) st))"

definition split_files :: "toolsDir \<Rightarrow> state \<Rightarrow> error + state" where
  "split_files dir st =
     (case dir of
        Absent \<Rightarrow> Inr st
      | Unreadable \<Rightarrow> Inl ReadError
      | Entries es \<Rightarrow> forEach split_file (filter (\<lambda>f. endsWith (fst f) ''.json'') es) st)"

section \<open>The report (lines 113 to 185)\<close>

text \<open>
  A line of the report carries the values that the source prints in it. The text of a
  value is not modelled, but whether it has one is: a template literal applies
  \<open>ToString\<close> to the value, which throws a \<open>TypeError\<close> for an object that has a
  property \<open>toString\<close> of its own (no JSON value is callable, and \<open>valueOf\<close> gives no
  primitive), and for an array that holds such an object, since \<open>join\<close> applies
  \<open>ToString\<close> to every element but \<open>null\<close>. Every other value has a text.
\<close>

fun printable :: "json \<Rightarrow> bool" where
  "printable (JArr xs) = (\<forall>x \<in> set xs. printable x)"
| "printable (JObj kvs) = (map_of kvs ''toString'' = None)"
| "printable _ = True"

definition has_text :: "jsval \<Rightarrow> bool" where
  "has_text v = (case v of None \<Rightarrow> True | Some j \<Rightarrow> printable j)"

datatype line =
    Report_title
  | Rule
  | Total_tools nat "nat option"
  | Unique_urls nat
  | Missing_urls_header nat
  | Missing_protocol_header nat
  | Missing_ref_header nat
  | Duplicates_header nat
  | Invalid_structure_header nat
  | Slug_item nat jsval jsval jsval
  | Url_item nat jsval jsval
  | Duplicate_url nat string
  | Duplicate_count nat
  | Invalid_structure_item nat string string
  | Blank
  | All_passed
  | Summary nat

datatype diagnostic = Invalid_tools_json | Error_reading error

record outcome =
  stdout :: "line list"
  stderr :: "diagnostic list"
  exit_code :: nat

text \<open>
  A piece of the report: the lines it has printed, and the exception that stopped it, if
  one did. \<open>andThen\<close> runs a second piece after a first one that did not throw, and
  \<open>forEach_print\<close> is \<open>forEach\<close> with the index, for a callback that prints.
\<close>

type_synonym printing = "line list \<times> error option"

definition println :: "line \<Rightarrow> printing" where
  "println l = ([l], None)"

definition throwing :: "error \<Rightarrow> printing" where
  "throwing e = ([], Some e)"

definition andThen :: "printing \<Rightarrow> printing \<Rightarrow> printing" where
  "andThen p q = (case snd p of Some e \<Rightarrow> p | None \<Rightarrow> (fst p @ fst q, snd q))"

fun forEach_print :: "(nat \<Rightarrow> 'a \<Rightarrow> printing) \<Rightarrow> nat \<Rightarrow> 'a list \<Rightarrow> printing" where
  "forEach_print f i [] = ([], None)"
| "forEach_print f i (x # xs) = andThen (f i x) (forEach_print f (Suc i) xs)"

definition printed_url :: "toolInfo \<Rightarrow> jsval" where
  "printed_url t = (case url t of None \<Rightarrow> None | Some v \<Rightarrow> v)"

text \<open>Lines 125 and 158.\<close>

definition slug_item :: "nat \<Rightarrow> toolInfo \<Rightarrow> printing" where
  "slug_item i t =
     (if has_text (title t) \<and> has_text (slug t) \<and> has_text (category t)
      then println (Slug_item (i + 1) (title t) (slug t) (category t))
      else throwing TypeError)"

text \<open>Lines 135 and 145.\<close>

definition url_item :: "nat \<Rightarrow> toolInfo \<Rightarrow> printing" where
  "url_item i t =
     (if has_text (title t) \<and> has_text (printed_url t)
      then println (Url_item (i + 1) (title t) (printed_url t))
      else throwing TypeError)"

text \<open>Lines 154 to 160.\<close>

definition duplicate_item :: "nat \<Rightarrow> string \<times> toolInfo list \<Rightarrow> printing" where
  "duplicate_item i d =
     andThen (println (Duplicate_url (i + 1) (fst d)))
       (andThen (println (Duplicate_count (length (snd d))))
          (forEach_print slug_item 0 (snd d)))"

text \<open>Line 169: a string and a \<open>typeof\<close>, which always have a text.\<close>

definition structure_item :: "nat \<Rightarrow> string \<times> json \<Rightarrow> printing" where
  "structure_item i x = println (Invalid_structure_item (i + 1) (fst x) (typeof (snd x)))"

definition hasIssues :: "state \<Rightarrow> (string \<times> toolInfo list) list \<Rightarrow> bool" where
  "hasIssues st dups \<longleftrightarrow>
     length (missing_url st) > 0 \<or> length (missing_protocol st) > 0 \<or>
     length (missing_ref st) > 0 \<or> length dups > 0 \<or> length (invalid_structure st) > 0"

definition issueCount :: "state \<Rightarrow> (string \<times> toolInfo list) list \<Rightarrow> nat" where
  "issueCount st dups =
     length (missing_url st) + length (missing_protocol st) + length (missing_ref st) +
     length (invalid_structure st) + length dups"

text \<open>One section: its heading, its items and an empty line, when the list is not empty.\<close>

definition section_of :: "bool \<Rightarrow> line \<Rightarrow> printing \<Rightarrow> printing" where
  "section_of nonempty heading items =
     (if nonempty then andThen (println heading) (andThen items (println Blank))
      else ([], None))"

definition sections :: "state \<Rightarrow> (string \<times> toolInfo list) list \<Rightarrow> printing" where
  "sections st dups =
     andThen
       (section_of (length (missing_url st) > 0)
          (Missing_urls_header (length (missing_url st)))
          (forEach_print slug_item 0 (missing_url st)))
    (andThen
       (section_of (length (missing_protocol st) > 0)
          (Missing_protocol_header (length (missing_protocol st)))
          (forEach_print url_item 0 (missing_protocol st)))
    (andThen
       (section_of (length (missing_ref st) > 0)
          (Missing_ref_header (length (missing_ref st)))
          (forEach_print url_item 0 (missing_ref st)))
    (andThen
       (section_of (length dups > 0)
          (Duplicates_header (length dups))
          (forEach_print duplicate_item 0 dups))
       (section_of (length (invalid_structure st) > 0)
          (Invalid_structure_header (length (invalid_structure st)))
          (forEach_print structure_item 0 (invalid_structure st))))))"

definition header :: "state \<Rightarrow> line list" where
  "header st =
     [Report_title, Rule,
      Total_tools (totalTools st)
        (if splitToolsChecked st > 0 then Some (splitToolsChecked st) else None),
      Unique_urls (length (urlMap st))]"

text \<open>
  Lines 113 to 185. An exception thrown while the report is printed reaches the \<open>catch\<close>
  of line 186 after the lines printed so far.
\<close>

definition report :: "state \<Rightarrow> (string \<times> toolInfo list) list \<Rightarrow> outcome" where
  "report st dups =
     (case snd (sections st dups) of
        Some e \<Rightarrow>
          \<lparr>stdout = header st @ fst (sections st dups), stderr = [Error_reading e],
           exit_code = 1\<rparr>
      | None \<Rightarrow>
          if \<not> hasIssues st dups
          then \<lparr>stdout = header st @ fst (sections st dups) @ [Rule, All_passed],
                stderr = [], exit_code = 0\<rparr>
          else \<lparr>stdout = header st @ fst (sections st dups) @
                  [Rule, Summary (issueCount st dups)],
                stderr = [], exit_code = 1\<rparr>)"

section \<open>The whole run (lines 12 to 189)\<close>

definition thrown :: "error \<Rightarrow> outcome" where
  "thrown e = \<lparr>stdout = [], stderr = [Error_reading e], exit_code = 1\<rparr>"

text \<open>
  The traversal of both sources: the state and the duplicate groups that the report is
  made from, or the exception that reaches the \<open>catch\<close>.
\<close>

definition traverse :: "json list \<Rightarrow> toolsDir
    \<Rightarrow> error + state \<times> (string \<times> toolInfo list) list" where
  "traverse tools dir =
     (case forEach primary_category tools init of
        Inl e \<Rightarrow> Inl e
      | Inr st \<Rightarrow>
         (let dups = duplicates (urlMap st)
          in case split_files dir st of
               Inl e \<Rightarrow> Inl e
             | Inr st' \<Rightarrow> Inr (st', dups)))"

definition validate :: "json option \<Rightarrow> toolsDir \<Rightarrow> outcome" where
  "validate primary dir =
     (case primary of
        None \<Rightarrow> thrown ReadError
      | Some data \<Rightarrow>
         (case getProp data ''tools'' of
            Inl e \<Rightarrow> thrown e
          | Inr tools \<Rightarrow>
              if \<not> truthy tools \<or> \<not> isArray tools
              then \<lparr>stdout = [], stderr = [Invalid_tools_json], exit_code = 1\<rparr>
              else (case traverse (elems tools) dir of
                      Inl e \<Rightarrow> thrown e
                    | Inr (st, dups) \<Rightarrow> report st dups)))"

section \<open>Notions for the theorems\<close>

text \<open>
  The following definitions are not part of the validator; the theorems on the URL map
  are stated with them, after the words of the specification. \<open>primary_records\<close> is
  the stream of the records of the primary dataset, each with its category: the elements
  of every \<open>content\<close> that is an array.
  \<open>owner\<close> is the triple of title, category and slug of such a record, and
  \<open>registered_under u\<close> lists the owners of the records whose trimmed url is \<open>u\<close>, in
  the order of the stream. \<open>owners m u\<close> is the list that the map \<open>m\<close> holds under
  \<open>u\<close>, empty when \<open>u\<close> is not a key.
\<close>

definition primary_records :: "json list \<Rightarrow> (json \<times> json) list" where
  "primary_records tools =
     concat (map (\<lambda>cat. if isArray (field cat ''content'')
                         then map (Pair cat) (elems (field cat ''content'')) else []) tools)"

definition owner :: "json \<times> json \<Rightarrow> toolInfo" where
  "owner r = \<lparr>title = field (snd r) ''title'', category = field (fst r) ''category'',
              slug = field (snd r) ''slug'', url = None\<rparr>"

definition registered_under :: "string \<Rightarrow> json list \<Rightarrow> toolInfo list" where
  "registered_under u tools =
     map owner (filter (\<lambda>r. trimmed_url (field (snd r) ''url'') = Inr (Some u))
       (primary_records tools))"

definition owners :: "(string \<times> toolInfo list) list \<Rightarrow> string \<Rightarrow> toolInfo list" where
  "owners m u = (case map_of m u of None \<Rightarrow> [] | Some g \<Rightarrow> g)"

text \<open>
  The invariant of the URL map in the proofs: the empty string is not a key, and no key
  holds an empty list.
\<close>

definition groups_ok :: "(string \<times> toolInfo list) list \<Rightarrow> bool" where
  "groups_ok m \<longleftrightarrow> map_of m [] = None \<and> (\<forall>k. map_of m k \<noteq> Some [])"


text \<open>
  \<open>report_has_text st dups\<close>: every value that the item lines of the report print has a
  text, so that no template literal of lines 125, 135, 145 and 158 throws.
\<close>

definition report_has_text :: "state \<Rightarrow> (string \<times> toolInfo list) list \<Rightarrow> bool" where
  "report_has_text st dups \<longleftrightarrow>
     (\<forall>t \<in> set (missing_url st). has_text (title t) \<and> has_text (slug t) \<and> has_text (category t)) \<and>
     (\<forall>t \<in> set (missing_protocol st). has_text (title t) \<and> has_text (printed_url t)) \<and>
     (\<forall>t \<in> set (missing_ref st). has_text (title t) \<and> has_text (printed_url t)) \<and>
     (\<forall>d \<in> set dups. \<forall>t \<in> set (snd d).
        has_text (title t) \<and> has_text (slug t) \<and> has_text (category t))"

text \<open>
  \<open>adjacent_hyphens s\<close>: two hyphens stand side by side somewhere in \<open>s\<close>.
\<close>

fun adjacent_hyphens :: "nat list \<Rightarrow> bool" where
  "adjacent_hyphens (c # d # cs) = (is_hyphen c \<and> is_hyphen d \<or> adjacent_hyphens (d # cs))"
| "adjacent_hyphens _ = False"

text \<open>
  \<open>units s\<close> is the JavaScript string with the code units of the characters of \<open>s\<close>.
  \<open>lower_basic\<close> is an instance of \<open>toLowerCase\<close> to run \<open>slugify\<close> on examples: it
  is the built-in on the strings made of the code units up to U+00FF, of U+0130 and of
  U+212A, and leaves every other code unit as it is.
\<close>

definition units :: "string \<Rightarrow> nat list" where
  "units s = map of_char s"

definition lower_unit :: "nat \<Rightarrow> nat list" where
  "lower_unit u =
     (if is_upper_unit u \<or> 0xC0 \<le> u \<and> u \<le> 0xDE \<and> u \<noteq> 0xD7 then [u + 0x20]
      else if u = 0x130 then [0x69, 0x307]
      else if u = 0x212A then [0x6B]
      else [u])"

definition lower_basic :: "nat list \<Rightarrow> nat list" where
  "lower_basic s = concat (map lower_unit s)"

section \<open>Loops; the split files leave the URL map as it is\<close>

lemma forEach_append:
  "forEach f (xs @ ys) s = (case forEach f xs s of Inl e \<Rightarrow> Inl e | Inr s' \<Rightarrow> forEach f ys s')"
  by (induction xs arbitrary: s) (auto split: sum.splits)

lemma forEach_preserves:
  assumes step: "\<And>x s s'. f x s = Inr s' \<Longrightarrow> g s' = g s"
    and run: "forEach f xs s = Inr s'"
  shows "g s' = g s"
  using run
proof (induction xs arbitrary: s)
  case Nil
  then show ?case by simp
next
  case (Cons x xs)
  then obtain s1 where s1: "f x s = Inr s1" and rest: "forEach f xs s1 = Inr s'"
    by (auto split: sum.splits)
  from Cons.IH [OF rest] step [OF s1] show ?case by simp
qed

lemma split_tool_urlMap: "split_tool c t st = Inr st' \<Longrightarrow> urlMap st' = urlMap st"
  by (auto simp: split_tool_def Let_def split: sum.splits if_splits option.splits json.splits)

lemma split_tools_urlMap:
  "forEach (split_tool c) ts st = Inr st' \<Longrightarrow> urlMap st' = urlMap st"
  by (rule forEach_preserves [where f = "split_tool c"]) (auto dest: split_tool_urlMap)

lemma split_file_urlMap: "split_file f st = Inr st' \<Longrightarrow> urlMap st' = urlMap st"
  by (auto simp: split_file_def Let_def split: option.splits if_splits
      dest: split_tools_urlMap)

lemma split_file_list_urlMap:
  "forEach split_file fs st = Inr st' \<Longrightarrow> urlMap st' = urlMap st"
  by (rule forEach_preserves [where f = split_file]) (auto dest: split_file_urlMap)

lemma split_files_urlMap: "split_files dir st = Inr st' \<Longrightarrow> urlMap st' = urlMap st"
  by (auto simp: split_files_def split: toolsDir.splits dest: split_file_list_urlMap)

section \<open>Printing the report\<close>

lemma snd_andThen: "snd (andThen p q) = None \<longleftrightarrow> snd p = None \<and> snd q = None"
  by (cases p) (auto simp: andThen_def split: option.splits)

lemma fst_andThen: "snd p = None \<Longrightarrow> fst (andThen p q) = fst p @ fst q"
  by (simp add: andThen_def)

lemma set_fst_andThen: "set (fst (andThen p q)) \<subseteq> set (fst p) \<union> set (fst q)"
  by (auto simp: andThen_def split: option.splits)

lemma andThen_error:
  "snd (andThen p q) = Some e \<Longrightarrow> snd p = Some e \<or> snd q = Some e"
  by (auto simp: andThen_def split: option.splits)

lemma forEach_print_ok:
  assumes "\<And>i x. snd (f i x) = None \<longleftrightarrow> P x"
  shows "snd (forEach_print f i xs) = None \<longleftrightarrow> (\<forall>x \<in> set xs. P x)"
  by (induction xs arbitrary: i) (simp_all add: snd_andThen assms)

lemma forEach_print_error:
  assumes "\<And>i x. snd (f i x) \<noteq> Some e"
  shows "snd (forEach_print f i xs) \<noteq> Some e"
proof (induction xs arbitrary: i)
  case Nil
  then show ?case by simp
next
  case (Cons x xs)
  show ?case
  proof
    assume "snd (forEach_print f i (x # xs)) = Some e"
    then have "snd (f i x) = Some e \<or> snd (forEach_print f (Suc i) xs) = Some e"
      by (simp add: andThen_error)
    with assms Cons.IH show False by blast
  qed
qed

lemma forEach_print_lines:
  assumes "\<And>i x. l \<notin> set (fst (f i x))"
  shows "l \<notin> set (fst (forEach_print f i xs))"
proof (induction xs arbitrary: i)
  case Nil
  then show ?case by simp
next
  case (Cons x xs)
  have "set (fst (forEach_print f i (x # xs))) \<subseteq>
      set (fst (f i x)) \<union> set (fst (forEach_print f (Suc i) xs))"
    by (simp add: set_fst_andThen)
  with assms Cons.IH show ?case by blast
qed

lemma slug_item_ok:
  "snd (slug_item i t) = None \<longleftrightarrow> has_text (title t) \<and> has_text (slug t) \<and> has_text (category t)"
  by (simp add: slug_item_def println_def throwing_def)

lemma url_item_ok:
  "snd (url_item i t) = None \<longleftrightarrow> has_text (title t) \<and> has_text (printed_url t)"
  by (simp add: url_item_def println_def throwing_def)

lemma slug_items_ok:
  "snd (forEach_print slug_item i ts) = None \<longleftrightarrow>
     (\<forall>t \<in> set ts. has_text (title t) \<and> has_text (slug t) \<and> has_text (category t))"
  by (rule forEach_print_ok) (rule slug_item_ok)

lemma url_items_ok:
  "snd (forEach_print url_item i ts) = None \<longleftrightarrow>
     (\<forall>t \<in> set ts. has_text (title t) \<and> has_text (printed_url t))"
  by (rule forEach_print_ok) (rule url_item_ok)

lemma duplicate_item_ok:
  "snd (duplicate_item i d) = None \<longleftrightarrow>
     (\<forall>t \<in> set (snd d). has_text (title t) \<and> has_text (slug t) \<and> has_text (category t))"
  by (simp add: duplicate_item_def snd_andThen println_def slug_items_ok)

lemma duplicate_items_ok:
  "snd (forEach_print duplicate_item i ds) = None \<longleftrightarrow>
     (\<forall>d \<in> set ds. \<forall>t \<in> set (snd d).
        has_text (title t) \<and> has_text (slug t) \<and> has_text (category t))"
  by (rule forEach_print_ok) (rule duplicate_item_ok)

lemma structure_items_ok: "snd (forEach_print structure_item i xs) = None"
  by (induction xs arbitrary: i) (simp_all add: snd_andThen structure_item_def println_def)

lemma structure_item_fst:
  "fst (structure_item i x) = [Invalid_structure_item (i + 1) (fst x) (typeof (snd x))]"
  by (simp add: structure_item_def println_def)

lemma structure_item_snd: "snd (structure_item i x) = None"
  by (simp add: structure_item_def println_def)

lemma structure_items_lines:
  "fst (forEach_print structure_item i xs) =
     map (\<lambda>(j, x). Invalid_structure_item (j + 1) (fst x) (typeof (snd x))) (enumerate i xs)"
proof (induction xs arbitrary: i)
  case Nil
  then show ?case by simp
next
  case (Cons x xs)
  have "fst (forEach_print structure_item i (x # xs)) =
      fst (structure_item i x) @ fst (forEach_print structure_item (Suc i) xs)"
    by (simp add: fst_andThen structure_item_snd)
  also have "\<dots> = Invalid_structure_item (i + 1) (fst x) (typeof (snd x)) #
      map (\<lambda>(j, x). Invalid_structure_item (j + 1) (fst x) (typeof (snd x)))
        (enumerate (Suc i) xs)"
    by (simp only: structure_item_fst Cons.IH append_Cons append_Nil)
  finally show ?case by simp
qed

lemma section_of_ok:
  "snd (section_of b h items) = None \<longleftrightarrow> \<not> b \<or> snd items = None"
  by (simp add: section_of_def snd_andThen println_def)

lemma sections_ok: "snd (sections st dups) = None \<longleftrightarrow> report_has_text st dups"
  unfolding sections_def snd_andThen section_of_ok slug_items_ok url_items_ok
    duplicate_items_ok structure_items_ok report_has_text_def
  by auto

lemma sections_empty: "\<not> hasIssues st dups \<Longrightarrow> sections st dups = ([], None)"
  by (simp add: hasIssues_def sections_def section_of_def andThen_def)

lemma slug_item_error: "snd (slug_item i t) \<noteq> Some ReadError"
  by (simp add: slug_item_def println_def throwing_def)

lemma url_item_error: "snd (url_item i t) \<noteq> Some ReadError"
  by (simp add: url_item_def println_def throwing_def)

lemma duplicate_item_error: "snd (duplicate_item i d) \<noteq> Some ReadError"
proof
  assume "snd (duplicate_item i d) = Some ReadError"
  then have "snd (forEach_print slug_item 0 (snd d)) = Some ReadError"
    by (auto simp: duplicate_item_def println_def dest!: andThen_error)
  with forEach_print_error [of slug_item ReadError 0 "snd d", OF slug_item_error]
  show False ..
qed

lemma section_of_error:
  "snd items \<noteq> Some e \<Longrightarrow> snd (section_of b h items) \<noteq> Some e"
  by (auto simp: section_of_def println_def dest!: andThen_error)

lemma sections_error: "snd (sections st dups) = Some e \<Longrightarrow> e = TypeError"
proof -
  assume a: "snd (sections st dups) = Some e"
  have "snd (sections st dups) \<noteq> Some ReadError"
    unfolding sections_def
    by (auto dest!: andThen_error
        simp: section_of_error forEach_print_error slug_item_error url_item_error
          duplicate_item_error structure_items_ok)
  with a show ?thesis by (cases e) simp_all
qed

lemma slug_item_no_summary: "Summary n \<notin> set (fst (slug_item i t))"
  by (simp add: slug_item_def println_def throwing_def)

lemma url_item_no_summary: "Summary n \<notin> set (fst (url_item i t))"
  by (simp add: url_item_def println_def throwing_def)

lemma duplicate_item_no_summary: "Summary n \<notin> set (fst (duplicate_item i d))"
proof -
  have "set (fst (duplicate_item i d)) \<subseteq>
      {Duplicate_url (i + 1) (fst d), Duplicate_count (length (snd d))} \<union>
      set (fst (forEach_print slug_item 0 (snd d)))"
    unfolding duplicate_item_def
    using set_fst_andThen [of "println (Duplicate_url (i + 1) (fst d))"
        "andThen (println (Duplicate_count (length (snd d)))) (forEach_print slug_item 0 (snd d))"]
      set_fst_andThen [of "println (Duplicate_count (length (snd d)))"
        "forEach_print slug_item 0 (snd d)"]
    by (auto simp: println_def)
  moreover have "Summary n \<notin> set (fst (forEach_print slug_item 0 (snd d)))"
    by (rule forEach_print_lines) (rule slug_item_no_summary)
  ultimately show ?thesis by auto
qed

lemma structure_item_no_summary: "Summary n \<notin> set (fst (structure_item i x))"
  by (simp add: structure_item_def println_def)

lemma section_of_no_summary:
  assumes "Summary n \<notin> set (fst items)" and "h \<noteq> Summary n"
  shows "Summary n \<notin> set (fst (section_of b h items))"
proof (cases b)
  case False
  then show ?thesis by (simp add: section_of_def)
next
  case True
  have "set (fst (section_of b h items)) \<subseteq> {h, Blank} \<union> set (fst items)"
    using True set_fst_andThen [of "println h" "andThen items (println Blank)"]
      set_fst_andThen [of items "println Blank"]
    by (auto simp: section_of_def println_def)
  with assms show ?thesis by auto
qed

lemma sections_no_summary: "Summary n \<notin> set (fst (sections st dups))"
proof -
  note items = forEach_print_lines [of "Summary n" slug_item, OF slug_item_no_summary]
    forEach_print_lines [of "Summary n" url_item, OF url_item_no_summary]
    forEach_print_lines [of "Summary n" duplicate_item, OF duplicate_item_no_summary]
    forEach_print_lines [of "Summary n" structure_item, OF structure_item_no_summary]
  have a: "Summary n \<notin> set (fst p) \<Longrightarrow> Summary n \<notin> set (fst q) \<Longrightarrow>
      Summary n \<notin> set (fst (andThen p q))" for p q
    using set_fst_andThen [of p q] by auto
  show ?thesis
    unfolding sections_def
    by (intro a section_of_no_summary items) simp_all
qed

lemma report_exit_code: "exit_code (report st dups) = (if hasIssues st dups then 1 else 0)"
  by (auto simp: report_def sections_empty split: option.splits)

section \<open>The fatal load error and the verdict\<close>

text \<open>
  C8. When the primary dataset cannot be read or parsed, or its root is not an object
  whose \<open>tools\<close> is an array, the run prints nothing on standard output, prints one
  diagnostic on standard error and exits with 1, whatever the split directory holds.
\<close>

theorem fatal_load_aborts:
  assumes "primary = None \<or>
    (\<exists>d. primary = Some d \<and> (\<forall>kvs cats. d = JObj kvs \<longrightarrow> map_of kvs ''tools'' \<noteq> Some (JArr cats)))"
  shows "stdout (validate primary dir) = [] \<and> exit_code (validate primary dir) = 1 \<and>
         length (stderr (validate primary dir)) = 1"
proof (cases primary)
  case None
  then show ?thesis by (simp add: validate_def thrown_def)
next
  case (Some d)
  with assms have shape: "\<forall>kvs cats. d = JObj kvs \<longrightarrow> map_of kvs ''tools'' \<noteq> Some (JArr cats)"
    by simp
  have "\<not> isArray (field d ''tools'')"
  proof
    assume "isArray (field d ''tools'')"
    then obtain cats where "field d ''tools'' = Some (JArr cats)"
      by (cases "field d ''tools''" rule: isArray.cases) auto
    with shape show False by (cases d) auto
  qed
  with Some show ?thesis
    by (simp add: validate_def thrown_def getProp_def)
qed

theorem fatal_load_aborts_witness:
  "stdout (validate (Some (JObj [(''content'', JArr [])])) Absent) = [] \<and>
   exit_code (validate (Some (JObj [(''content'', JArr [])])) Absent) = 1 \<and>
   length (stderr (validate (Some (JObj [(''content'', JArr [])])) Absent)) = 1"
  using fatal_load_aborts [of "Some (JObj [(''content'', JArr [])])" Absent] by simp

text \<open>
  C1. The exit code is 0 exactly when the traversal of both sources completes and leaves
  the four buckets and the list of duplicate groups empty; in every other case it is 1.
\<close>

theorem verdict_pass_iff:
  "(exit_code (validate primary dir) = 0 \<longleftrightarrow>
      (\<exists>data tools st dups. primary = Some data \<and> getProp data ''tools'' = Inr (Some (JArr tools)) \<and>
         traverse tools dir = Inr (st, dups) \<and>
         missing_url st = [] \<and> missing_protocol st = [] \<and> missing_ref st = [] \<and>
         invalid_structure st = [] \<and> dups = [])) \<and>
   (exit_code (validate primary dir) = 0 \<or> exit_code (validate primary dir) = 1)"
proof (cases primary)
  case None
  then show ?thesis by (simp add: validate_def thrown_def)
next
  case (Some data)
  show ?thesis
  proof (cases "getProp data ''tools''")
    case (Inl e)
    with Some show ?thesis by (simp add: validate_def thrown_def)
  next
    case (Inr tools)
    show ?thesis
    proof (cases "isArray tools")
      case False
      then have "\<And>xs. tools \<noteq> Some (JArr xs)" by auto
      with Some Inr False show ?thesis by (simp add: validate_def)
    next
      case True
      then obtain cats where cats: "tools = Some (JArr cats)"
        by (cases tools rule: isArray.cases) auto
      show ?thesis
      proof (cases "traverse cats dir")
        case (Inl e)
        with Some Inr cats show ?thesis by (simp add: validate_def thrown_def)
      next
        case r: (Inr p)
        obtain st dups where p: "p = (st, dups)" by (cases p)
        have "exit_code (report st dups) = (if hasIssues st dups then 1 else 0)"
          by (rule report_exit_code)
        moreover have "\<not> hasIssues st dups \<longleftrightarrow>
            missing_url st = [] \<and> missing_protocol st = [] \<and> missing_ref st = [] \<and>
            invalid_structure st = [] \<and> dups = []"
          by (auto simp: hasIssues_def)
        ultimately show ?thesis using Some Inr cats r p
          by (auto simp: validate_def)
      qed
    qed
  qed
qed

theorem verdict_pass_iff_witness:
  "exit_code (validate (Some (JObj [(''tools'', JArr [])])) Absent) = 0 \<and>
   exit_code (validate (Some (JObj [(''tools'', JArr [JObj [(''content'', JArr [JObj []])]])]))
     Absent) = 1"
proof -
  let ?info = "\<lparr>title = None, category = None, slug = None, url = None\<rparr>"
  let ?st = "init\<lparr>totalTools := 1, missing_url := [?info]\<rparr>"
  let ?good = "JObj [(''tools'', JArr [])]"
  let ?cats = "[JObj [(''content'', JArr [JObj []])]]"
  let ?bad = "JObj [(''tools'', JArr ?cats)]"
  have clean: "traverse [] Absent = Inr (init, [])"
    by (simp add: traverse_def split_files_def duplicates_def sort_by_def init_def)
  have g1: "getProp ?good ''tools'' = Inr (Some (JArr []))"
    by (simp add: getProp_def)
  have pass: "exit_code (validate (Some ?good) Absent) = 0"
    by (rule iffD2 [OF verdict_pass_iff [THEN conjunct1]], intro exI conjI, rule refl,
        rule g1, rule clean) (simp_all add: init_def)
  have t: "traverse ?cats Absent = Inr (?st, [])"
    by (simp add: traverse_def primary_category_def primary_tool_def getProp_def
        split_files_def duplicates_def sort_by_def init_def)
  have g2: "getProp ?bad ''tools'' = Inr (Some (JArr ?cats))"
    by (simp add: getProp_def)
  have "exit_code (validate (Some ?bad) Absent) \<noteq> 0"
  proof
    assume "exit_code (validate (Some ?bad) Absent) = 0"
    then obtain data tools st dups where d: "Some ?bad = Some data"
      and g: "getProp data ''tools'' = Inr (Some (JArr tools))"
      and tr: "traverse tools Absent = Inr (st, dups)" and m: "missing_url st = []"
      unfolding verdict_pass_iff [THEN conjunct1] by (elim exE conjE)
    from d g g2 have "tools = ?cats" by simp
    with tr t have "st = ?st" by simp
    with m show False by simp
  qed
  with verdict_pass_iff [of "Some ?bad" Absent, THEN conjunct2]
  have fail: "exit_code (validate (Some ?bad) Absent) = 1" by simp
  from pass fail show ?thesis by (rule conjI)
qed

section \<open>The summary line\<close>

lemma validate_completed:
  assumes "primary = Some data" and "getProp data ''tools'' = Inr (Some (JArr tools))"
    and "traverse tools dir = Inr (st, dups)"
  shows "validate primary dir = report st dups"
  using assms by (simp add: validate_def)

lemma report_clean:
  assumes "\<not> hasIssues st dups"
  shows "report st dups =
    \<lparr>stdout = header st @ [Rule, All_passed], stderr = [], exit_code = 0\<rparr>"
  using assms by (simp add: report_def sections_empty)

lemma report_summary:
  assumes "hasIssues st dups" and "report_has_text st dups"
  shows "report st dups =
    \<lparr>stdout = header st @ fst (sections st dups) @ [Rule, Summary (issueCount st dups)],
     stderr = [], exit_code = 1\<rparr>"
proof -
  from assms(2) have "snd (sections st dups) = None" by (simp add: sections_ok)
  with assms(1) show ?thesis by (simp add: report_def)
qed

lemma report_thrown:
  assumes "\<not> report_has_text st dups"
  shows "report st dups =
    \<lparr>stdout = header st @ fst (sections st dups), stderr = [Error_reading TypeError],
     exit_code = 1\<rparr>"
proof -
  from assms obtain e where e: "snd (sections st dups) = Some e"
    using sections_ok [of st dups] by (cases "snd (sections st dups)") auto
  then have "e = TypeError" by (rule sections_error)
  with e show ?thesis by (simp add: report_def)
qed

text \<open>
  C4, as stated, fails on a clean pass: the report of an empty dataset ends with the
  success line, and no summary line is printed.
\<close>

theorem summary_clean_pass_counterexample:
  "stdout (validate (Some (JObj [(''tools'', JArr [])])) Absent) =
     [Report_title, Rule, Total_tools 0 None, Unique_urls 0, Rule, All_passed] \<and>
   exit_code (validate (Some (JObj [(''tools'', JArr [])])) Absent) = 0"
  by (simp add: validate_def getProp_def traverse_def split_files_def duplicates_def
      sort_by_def report_clean hasIssues_def header_def init_def)

text \<open>
  C4, amended. For a run whose traversal completes: with no finding, the report is the
  header and the success line, no summary is printed, and the exit code is 0. With at
  least one finding, when every value that the item lines print has a text, the report
  ends with the summary line, whose number is the sum of the four bucket sizes and the
  number of duplicate groups, and the exit code is 1. When one of those values has no
  text, the report stops at its line with a \<open>TypeError\<close>: no summary is printed, the
  diagnostic of the \<open>catch\<close> is, and the exit code is 1.
\<close>

theorem summary_iff_issues:
  assumes "primary = Some data" and "getProp data ''tools'' = Inr (Some (JArr tools))"
    and "traverse tools dir = Inr (st, dups)"
  shows "(\<not> hasIssues st dups \<longrightarrow>
            stdout (validate primary dir) = header st @ [Rule, All_passed] \<and>
            stderr (validate primary dir) = [] \<and>
            exit_code (validate primary dir) = 0) \<and>
         (hasIssues st dups \<and> report_has_text st dups \<longrightarrow>
            last (stdout (validate primary dir)) =
              Summary (length (missing_url st) + length (missing_protocol st) +
                length (missing_ref st) + length (invalid_structure st) + length dups) \<and>
            stderr (validate primary dir) = [] \<and>
            exit_code (validate primary dir) = 1) \<and>
         (\<not> report_has_text st dups \<longrightarrow>
            (\<forall>n. Summary n \<notin> set (stdout (validate primary dir))) \<and>
            stderr (validate primary dir) = [Error_reading TypeError] \<and>
            exit_code (validate primary dir) = 1)"
proof -
  note v = validate_completed [OF assms]
  have clean: "stdout (validate primary dir) = header st @ [Rule, All_passed] \<and>
      stderr (validate primary dir) = [] \<and> exit_code (validate primary dir) = 0"
    if "\<not> hasIssues st dups"
    unfolding v report_clean [OF that] by simp
  have summary: "last (stdout (validate primary dir)) =
        Summary (length (missing_url st) + length (missing_protocol st) +
          length (missing_ref st) + length (invalid_structure st) + length dups) \<and>
      stderr (validate primary dir) = [] \<and> exit_code (validate primary dir) = 1"
    if "hasIssues st dups" and "report_has_text st dups"
    unfolding v report_summary [OF that] by (simp add: issueCount_def)
  have stopped: "(\<forall>n. Summary n \<notin> set (stdout (validate primary dir))) \<and>
      stderr (validate primary dir) = [Error_reading TypeError] \<and>
      exit_code (validate primary dir) = 1"
    if "\<not> report_has_text st dups"
    unfolding v report_thrown [OF that] by (simp add: header_def sections_no_summary)
  from clean summary stopped show ?thesis by blast
qed

theorem summary_iff_issues_witness:
  "last (stdout (validate (Some (JObj [(''tools'', JArr [JObj [(''content'', JArr [JObj []])]])])) Absent))
     = Summary 1 \<and>
   exit_code (validate (Some (JObj [(''tools'', JArr [JObj [(''content'', JArr [JObj []])]])])) Absent) = 1"
proof -
  let ?info = "\<lparr>title = None, category = None, slug = None, url = None\<rparr>"
  let ?st = "init\<lparr>totalTools := 1, missing_url := [?info]\<rparr>"
  have t: "traverse [JObj [(''content'', JArr [JObj []])]] Absent = Inr (?st, [])"
    by (simp add: traverse_def primary_category_def primary_tool_def getProp_def
        split_files_def duplicates_def sort_by_def init_def)
  have g: "getProp (JObj [(''tools'', JArr [JObj [(''content'', JArr [JObj []])]])]) ''tools''
      = Inr (Some (JArr [JObj [(''content'', JArr [JObj []])]]))"
    by (simp add: getProp_def)
  have h: "hasIssues ?st [] \<and> report_has_text ?st []"
    by (simp add: hasIssues_def report_has_text_def has_text_def init_def)
  from summary_iff_issues [OF refl g t, THEN conjunct2, THEN conjunct1] h
  have "last (stdout (validate (Some (JObj [(''tools'', JArr [JObj [(''content'', JArr [JObj []])]])])) Absent))
     = Summary (length (missing_url ?st) + length (missing_protocol ?st) +
         length (missing_ref ?st) + length (invalid_structure ?st) + length ([] :: (string \<times> toolInfo list) list)) \<and>
   stderr (validate (Some (JObj [(''tools'', JArr [JObj [(''content'', JArr [JObj []])]])])) Absent) = [] \<and>
   exit_code (validate (Some (JObj [(''tools'', JArr [JObj [(''content'', JArr [JObj []])]])])) Absent) = 1"
    by (rule mp)
  then show ?thesis by (simp add: init_def)
qed

text \<open>
  A record with no url whose title is an object with a property \<open>toString\<close>: the
  traversal completes with one finding, and the report stops after the heading of the
  first section.
\<close>

lemma report_stops_example:
  "validate (Some (JObj [(''tools'', JArr [JObj [(''category'', JStr ''c''),
      (''content'', JArr [JObj [(''title'', JObj [(''toString'', JNum 1)]),
                               (''slug'', JStr ''s'')]])]])])) Absent =
   \<lparr>stdout = [Report_title, Rule, Total_tools 1 None, Unique_urls 0, Missing_urls_header 1],
    stderr = [Error_reading TypeError], exit_code = 1\<rparr>"
  by (simp add: validate_def getProp_def traverse_def primary_category_def primary_tool_def
      split_files_def duplicates_def sort_by_def report_def sections_def section_of_def
      andThen_def println_def throwing_def slug_item_def has_text_def header_def
      hasIssues_def init_def Let_def)

section \<open>A primary category without an array of records\<close>

lemma primary_category_skipped:
  "cat \<noteq> JNull \<Longrightarrow> \<not> isArray (field cat ''content'') \<Longrightarrow> primary_category cat st = Inr st"
  by (simp add: primary_category_def getProp_def)

text \<open>
  C10. A category of the primary dataset (any value but \<open>null\<close>) whose \<open>content\<close> is
  absent or not an array leaves the state as it is: nothing is counted and nothing is
  recorded. The run gives the same outcome as for the dataset without that category, and
  a dataset made of that category alone passes; with a split file whose body is not an
  array beside it, the run fails.
\<close>

theorem category_without_content_skipped:
  assumes "cat \<noteq> JNull" and "\<not> isArray (field cat ''content'')"
  shows "primary_category cat st = Inr st \<and>
         traverse (before @ cat # after) dir = traverse (before @ after) dir \<and>
         validate (Some (JObj [(''tools'', JArr (before @ cat # after))])) dir =
           validate (Some (JObj [(''tools'', JArr (before @ after))])) dir \<and>
         exit_code (validate (Some (JObj [(''tools'', JArr [cat])])) Absent) = 0 \<and>
         (\<not> isArray (Some body) \<longrightarrow>
            exit_code (validate (Some (JObj [(''tools'', JArr [cat])]))
              (Entries [(''x.json'', Some body)])) = 1)"
proof -
  have skip: "\<And>s. primary_category cat s = Inr s"
    using assms by (rule primary_category_skipped)
  have loop: "forEach primary_category (before @ cat # after) init =
      forEach primary_category (before @ after) init"
    by (simp add: forEach_append skip split: sum.splits)
  have trav: "traverse (before @ cat # after) dir = traverse (before @ after) dir"
    unfolding traverse_def loop ..
  have one: "traverse [cat] Absent = Inr (init, [])"
    by (simp add: traverse_def skip split_files_def duplicates_def sort_by_def init_def)
  have pass: "exit_code (validate (Some (JObj [(''tools'', JArr [cat])])) Absent) = 0"
    by (simp add: validate_def getProp_def one report_exit_code hasIssues_def init_def)
  have fail: "exit_code (validate (Some (JObj [(''tools'', JArr [cat])]))
      (Entries [(''x.json'', Some body)])) = 1" if "\<not> isArray (Some body)"
  proof -
    have "traverse [cat] (Entries [(''x.json'', Some body)]) =
        Inr (init\<lparr>invalid_structure := [(''x'', body)]\<rparr>, [])"
      using that
      by (simp add: traverse_def skip split_files_def split_file_def endsWith_def
          startsWith_def duplicates_def sort_by_def init_def)
    then show ?thesis
      by (simp add: validate_def getProp_def report_exit_code hasIssues_def init_def)
  qed
  from skip trav pass fail show ?thesis
    by (simp add: validate_def getProp_def)
qed

theorem category_without_content_skipped_witness:
  "\<not> isArray (field (JObj [(''category'', JStr ''c''), (''content'', JObj [(''url'', JStr ''x'')])])
      ''content'') \<and>
   primary_category (JObj [(''category'', JStr ''c''), (''content'', JObj [(''url'', JStr ''x'')])]) init
     = Inr init \<and>
   exit_code (validate (Some (JObj [(''tools'',
      JArr [JObj [(''category'', JStr ''c''), (''content'', JObj [(''url'', JStr ''x'')])]])])) Absent) = 0 \<and>
   exit_code (validate (Some (JObj [(''tools'',
      JArr [JObj [(''category'', JStr ''c''), (''content'', JObj [(''url'', JStr ''x'')])]])]))
      (Entries [(''x.json'', Some (JObj [(''url'', JStr ''x'')]))])) = 1"
proof -
  let ?cat = "JObj [(''category'', JStr ''c''), (''content'', JObj [(''url'', JStr ''x'')])]"
  have h1: "?cat \<noteq> JNull" by simp
  have h2: "\<not> isArray (field ?cat ''content'')" by simp
  have h3: "\<not> isArray (Some (JObj [(''url'', JStr ''x'')]))" by simp
  note inst = category_without_content_skipped [OF h1 h2, of init "[]" "[]" Absent
      "JObj [(''url'', JStr ''x'')]"]
  from inst have a: "primary_category ?cat init = Inr init" by (rule conjunct1)
  from inst have b: "exit_code (validate (Some (JObj [(''tools'', JArr [?cat])])) Absent) = 0"
    by (rule conjunct2 [THEN conjunct2, THEN conjunct2, THEN conjunct1])
  from inst have "\<not> isArray (Some (JObj [(''url'', JStr ''x'')])) \<longrightarrow>
      exit_code (validate (Some (JObj [(''tools'', JArr [?cat])]))
        (Entries [(''x.json'', Some (JObj [(''url'', JStr ''x'')]))])) = 1"
    by (rule conjunct2 [THEN conjunct2, THEN conjunct2, THEN conjunct2])
  with h3 have c: "exit_code (validate (Some (JObj [(''tools'', JArr [?cat])]))
      (Entries [(''x.json'', Some (JObj [(''url'', JStr ''x'')]))])) = 1" by (rule rev_mp)
  from h2 a b c show ?thesis by (intro conjI)
qed

section \<open>A split file that is not an array, and one that does not parse\<close>

lemma validate_aborts:
  assumes "\<And>tools. \<exists>e. traverse tools dir = Inl e"
  shows "stdout (validate primary dir) = [] \<and> exit_code (validate primary dir) = 1"
proof (cases primary)
  case None
  then show ?thesis by (simp add: validate_def thrown_def)
next
  case (Some data)
  show ?thesis
  proof (cases "getProp data ''tools''")
    case (Inl e)
    with Some show ?thesis by (simp add: validate_def thrown_def)
  next
    case (Inr tools)
    from assms obtain e where "traverse (elems tools) dir = Inl e" by blast
    with Some Inr show ?thesis by (simp add: validate_def thrown_def)
  qed
qed

lemma traverse_split_error:
  assumes "\<And>st. \<exists>e. split_files dir st = Inl e"
  shows "\<exists>e. traverse tools dir = Inl e"
proof (cases "forEach primary_category tools init")
  case (Inl e)
  then show ?thesis by (simp add: traverse_def)
next
  case (Inr st)
  from assms obtain e where "split_files dir st = Inl e" by blast
  with Inr show ?thesis by (simp add: traverse_def)
qed

lemma split_file_unparsed: "split_file (name, None) st = Inl ReadError"
  by (simp add: split_file_def)

lemma split_file_not_array_step:
  "\<not> isArray (Some body) \<Longrightarrow>
   split_file (name, Some body) st =
     Inr (st\<lparr>invalid_structure := invalid_structure st @ [(remove_first ''.json'' name, body)]\<rparr>)"
  by (simp add: split_file_def)

text \<open>
  C2, as stated, fails: one split file that cannot be read or parsed aborts the whole
  run. Here \<open>b.json\<close> holds an object and \<open>a.json\<close> does not parse: no report is
  printed, the finding for \<open>b.json\<close> is lost with it, and the exit code is 1.
\<close>

theorem unreadable_split_file_counterexample:
  "validate (Some (JObj [(''tools'', JArr [])]))
     (Entries [(''b.json'', Some (JObj [])), (''a.json'', None)]) =
   \<lparr>stdout = [], stderr = [Error_reading ReadError], exit_code = 1\<rparr>"
  by (simp add: validate_def getProp_def traverse_def split_files_def split_file_def
      endsWith_def startsWith_def thrown_def)

lemma split_tool_invalid_structure:
  "split_tool c t st = Inr st' \<Longrightarrow> invalid_structure st' = invalid_structure st"
  by (auto simp: split_tool_def Let_def split: sum.splits if_splits option.splits json.splits)

lemma split_tools_invalid_structure:
  "forEach (split_tool c) ts st = Inr st' \<Longrightarrow> invalid_structure st' = invalid_structure st"
  by (rule forEach_preserves [where f = "split_tool c"])
     (auto dest: split_tool_invalid_structure)

lemma split_file_grows:
  "split_file f st = Inr st' \<Longrightarrow> \<exists>post. invalid_structure st' = invalid_structure st @ post"
  by (auto simp: split_file_def Let_def split: option.splits if_splits
      dest: split_tools_invalid_structure)

lemma split_file_list_grows:
  "forEach split_file fs st = Inr st' \<Longrightarrow>
   \<exists>post. invalid_structure st' = invalid_structure st @ post"
proof (induction fs arbitrary: st)
  case Nil
  then show ?case by simp
next
  case (Cons f fs)
  then obtain s1 where s1: "split_file f st = Inr s1" and rest: "forEach split_file fs s1 = Inr st'"
    by (auto split: sum.splits)
  from split_file_grows [OF s1] obtain p1 where "invalid_structure s1 = invalid_structure st @ p1" ..
  moreover from Cons.IH [OF rest] obtain p2
    where "invalid_structure st' = invalid_structure s1 @ p2" ..
  ultimately have "invalid_structure st' = invalid_structure st @ (p1 @ p2)" by simp
  then show ?case ..
qed

lemma andThen_lines:
  "snd (andThen p q) = None \<Longrightarrow> set (fst q) \<subseteq> set (fst (andThen p q))"
  by (auto simp: andThen_def split: option.splits)

lemma structure_section_printed:
  assumes "report_has_text st dups" and "invalid_structure st \<noteq> []"
  shows "set (fst (forEach_print structure_item 0 (invalid_structure st))) \<subseteq>
    set (fst (sections st dups))"
proof -
  let ?items = "forEach_print structure_item 0 (invalid_structure st)"
  let ?last = "section_of (length (invalid_structure st) > 0)
      (Invalid_structure_header (length (invalid_structure st))) ?items"
  from assms(1) have ok: "snd (sections st dups) = None" by (simp add: sections_ok)
  have a: "snd (andThen p q) = None \<Longrightarrow> set (fst r) \<subseteq> set (fst q) \<Longrightarrow>
      set (fst r) \<subseteq> set (fst (andThen p q))" for p q r
    using andThen_lines [of p q] by blast
  have "set (fst ?last) \<subseteq> set (fst (sections st dups))"
    using ok unfolding sections_def
    by (intro a) (simp_all add: snd_andThen)
  moreover have "set (fst ?items) \<subseteq> set (fst ?last)"
    using assms(2)
    by (auto simp: section_of_def andThen_def println_def structure_items_ok)
  ultimately show ?thesis by blast
qed

lemma typeof_not_array:
  "\<not> isArray (Some body) \<Longrightarrow>
   typeof body = (case body of JBool b \<Rightarrow> ''boolean'' | JNum n \<Rightarrow> ''number''
                  | JStr s \<Rightarrow> ''string'' | _ \<Rightarrow> ''object'')"
  by (cases body) simp_all

text \<open>
  C2, amended. For a split file whose name ends in \<open>.json\<close>: when the file parses and
  its body is not an array, exactly one \<open>invalid_structure\<close> entry is recorded, nothing
  else changes, and the loop goes on with the remaining files. The entry holds the
  category, which is the file name without its first \<open>.json\<close>, and the body; a run that
  completes keeps it at its place in the bucket, and a report that prints all its lines
  shows it there with the category and the runtime type of the body: \<open>boolean\<close>,
  \<open>number\<close> or \<open>string\<close>, and \<open>object\<close> for \<open>null\<close> and for an object. When the file
  cannot be read or parsed, the run prints no report and exits with 1, whatever the
  other files and the primary dataset hold.
\<close>

theorem split_file_not_array:
  assumes ext: "endsWith name ''.json''"
  shows "(\<not> isArray (Some body) \<longrightarrow> split_files (Entries before) st = Inr st1 \<longrightarrow>
           split_files (Entries (before @ (name, Some body) # rest)) st =
           split_files (Entries rest)
             (st1\<lparr>invalid_structure :=
                    invalid_structure st1 @ [(remove_first ''.json'' name, body)]\<rparr>)) \<and>
         (\<not> isArray (Some body) \<longrightarrow> primary = Some data \<longrightarrow>
           getProp data ''tools'' = Inr (Some (JArr tools)) \<longrightarrow>
           traverse tools (Entries (before @ (name, Some body) # rest)) = Inr (st2, dups) \<longrightarrow>
           (\<exists>k < length (invalid_structure st2).
              invalid_structure st2 ! k = (remove_first ''.json'' name, body) \<and>
              (report_has_text st2 dups \<longrightarrow>
                 Invalid_structure_item (Suc k) (remove_first ''.json'' name)
                   (case body of JBool b \<Rightarrow> ''boolean'' | JNum n \<Rightarrow> ''number''
                    | JStr s \<Rightarrow> ''string'' | _ \<Rightarrow> ''object'')
                 \<in> set (stdout (validate primary
                      (Entries (before @ (name, Some body) # rest))))))) \<and>
         stdout (validate primary (Entries (before @ (name, None) # rest))) = [] \<and>
         exit_code (validate primary (Entries (before @ (name, None) # rest))) = 1"
proof -
  let ?json = "\<lambda>f :: string \<times> json option. endsWith (fst f) ''.json''"
  let ?cat = "remove_first ''.json'' name"
  let ?dir = "Entries (before @ (name, Some body) # rest)"
  let ?T = "case body of JBool b \<Rightarrow> ''boolean'' | JNum n \<Rightarrow> ''number''
      | JStr s \<Rightarrow> ''string'' | _ \<Rightarrow> ''object''"
  have cont: "split_files ?dir st =
      split_files (Entries rest)
        (st1\<lparr>invalid_structure := invalid_structure st1 @ [(?cat, body)]\<rparr>)"
    if "\<not> isArray (Some body)" and "split_files (Entries before) st = Inr st1" for st st1
    using that ext by (simp add: split_files_def forEach_append split_file_not_array_step)
  have shown: "\<exists>k < length (invalid_structure st2).
      invalid_structure st2 ! k = (?cat, body) \<and>
      (report_has_text st2 dups \<longrightarrow>
         Invalid_structure_item (Suc k) ?cat ?T \<in> set (stdout (validate primary ?dir)))"
    if na: "\<not> isArray (Some body)" and p: "primary = Some data"
      and g: "getProp data ''tools'' = Inr (Some (JArr tools))"
      and t: "traverse tools ?dir = Inr (st2, dups)"
  proof -
    from t obtain st0 where sf: "split_files ?dir st0 = Inr st2"
      by (auto simp: traverse_def Let_def split: sum.splits)
    then obtain s1 where b: "split_files (Entries before) st0 = Inr s1"
      using ext
      by (cases "forEach split_file (filter ?json before) st0")
         (simp_all add: split_files_def forEach_append)
    let ?s2 = "s1\<lparr>invalid_structure := invalid_structure s1 @ [(?cat, body)]\<rparr>"
    from cont [OF na b] sf have "split_files (Entries rest) ?s2 = Inr st2" by simp
    then have "forEach split_file (filter ?json rest) ?s2 = Inr st2"
      by (simp add: split_files_def)
    from split_file_list_grows [OF this] obtain post
      where inv: "invalid_structure st2 = (invalid_structure s1 @ [(?cat, body)]) @ post"
      by auto
    let ?k = "length (invalid_structure s1)"
    from inv have k: "?k < length (invalid_structure st2)" by simp
    from inv have nth: "invalid_structure st2 ! ?k = (?cat, body)"
      by (simp add: nth_append)
    have printed: "Invalid_structure_item (Suc ?k) ?cat ?T \<in> set (stdout (validate primary ?dir))"
      if texts: "report_has_text st2 dups"
    proof -
      from inv have ne: "invalid_structure st2 \<noteq> []" by simp
      then have issues: "hasIssues st2 dups" by (simp add: hasIssues_def)
      from k nth have "(?k, (?cat, body)) \<in> set (enumerate 0 (invalid_structure st2))"
        by (simp add: in_set_enumerate_eq)
      then have "Invalid_structure_item (?k + 1) (fst (?cat, body)) (typeof (snd (?cat, body)))
          \<in> set (fst (forEach_print structure_item 0 (invalid_structure st2)))"
        unfolding structure_items_lines set_map by (rule rev_image_eqI) simp
      then have "Invalid_structure_item (Suc ?k) ?cat ?T
          \<in> set (fst (forEach_print structure_item 0 (invalid_structure st2)))"
        by (simp add: typeof_not_array [OF na])
      with structure_section_printed [OF texts ne]
      have "Invalid_structure_item (Suc ?k) ?cat ?T \<in> set (fst (sections st2 dups))" by blast
      then show ?thesis
        unfolding validate_completed [OF p g t] report_summary [OF issues texts] by simp
    qed
    from k nth printed show ?thesis by blast
  qed
  have "\<exists>e. split_files (Entries (before @ (name, None) # rest)) s = Inl e" for s
    using ext
    by (cases "forEach split_file (filter ?json before) s")
       (simp_all add: split_files_def forEach_append split_file_unparsed)
  then have "\<exists>e. traverse tools (Entries (before @ (name, None) # rest)) = Inl e" for tools
    by (rule traverse_split_error)
  then have "stdout (validate primary (Entries (before @ (name, None) # rest))) = [] \<and>
      exit_code (validate primary (Entries (before @ (name, None) # rest))) = 1"
    by (rule validate_aborts)
  with cont shown show ?thesis by blast
qed

theorem split_file_not_array_witness:
  "split_files (Entries [(''a.json'', Some (JArr [])), (''b.json'', Some (JStr ''oops'')),
      (''c.json'', Some (JArr []))]) init =
     Inr (init\<lparr>invalid_structure := [(''b'', JStr ''oops'')]\<rparr>) \<and>
   Invalid_structure_item 1 ''b'' ''string'' \<in>
     set (stdout (validate (Some (JObj [(''tools'', JArr [])]))
       (Entries [(''a.json'', Some (JArr [])), (''b.json'', Some (JStr ''oops'')),
         (''c.json'', Some (JArr []))]))) \<and>
   exit_code (validate (Some (JObj [(''tools'', JArr [])]))
     (Entries [(''a.json'', Some (JArr [])), (''b.json'', None), (''c.json'', Some (JArr []))])) = 1"
proof -
  let ?body = "JStr ''oops''"
  let ?data = "JObj [(''tools'', JArr [])]"
  let ?st2 = "init\<lparr>invalid_structure := [(''b'', ?body)]\<rparr>"
  let ?dir = "Entries ([(''a.json'', Some (JArr []))] @ (''b.json'', Some ?body) #
      [(''c.json'', Some (JArr []))])"
  have ext: "endsWith ''b.json'' ''.json''"
    by (simp add: endsWith_def startsWith_def)
  have na: "\<not> isArray (Some ?body)" by simp
  have pre: "split_files (Entries [(''a.json'', Some (JArr []))]) init = Inr init"
    by (simp add: split_files_def split_file_def endsWith_def startsWith_def)
  have post: "split_files (Entries [(''c.json'', Some (JArr []))]) s = Inr s" for s
    by (simp add: split_files_def split_file_def endsWith_def startsWith_def)
  have cat: "remove_first ''.json'' ''b.json'' = ''b''"
    by (simp add: startsWith_def)
  have g: "getProp ?data ''tools'' = Inr (Some (JArr []))"
    by (simp add: getProp_def)
  note inst = split_file_not_array [OF ext, where body = ?body
      and before = "[(''a.json'', Some (JArr []))]" and st = init and ?st1.0 = init
      and rest = "[(''c.json'', Some (JArr []))]" and primary = "Some ?data" and data = ?data
      and tools = "[]" and ?st2.0 = ?st2 and dups = "[]"]
  from inst have "\<not> isArray (Some ?body) \<longrightarrow>
      split_files (Entries [(''a.json'', Some (JArr []))]) init = Inr init \<longrightarrow>
      split_files ?dir init =
      split_files (Entries [(''c.json'', Some (JArr []))])
        (init\<lparr>invalid_structure := invalid_structure init @
           [(remove_first ''.json'' ''b.json'', ?body)]\<rparr>)"
    by (rule conjunct1)
  with na pre have "split_files ?dir init =
      split_files (Entries [(''c.json'', Some (JArr []))])
        (init\<lparr>invalid_structure := invalid_structure init @
           [(remove_first ''.json'' ''b.json'', ?body)]\<rparr>)"
    by (elim impE) assumption+
  then have a: "split_files ?dir init = Inr ?st2"
    unfolding post cat by (simp add: init_def)
  then have t: "traverse [] ?dir = Inr (?st2, [])"
    by (simp add: traverse_def duplicates_def sort_by_def init_def)
  from inst have "\<not> isArray (Some ?body) \<longrightarrow> Some ?data = Some ?data \<longrightarrow>
      getProp ?data ''tools'' = Inr (Some (JArr [])) \<longrightarrow>
      traverse [] ?dir = Inr (?st2, []) \<longrightarrow>
      (\<exists>k < length (invalid_structure ?st2).
         invalid_structure ?st2 ! k = (remove_first ''.json'' ''b.json'', ?body) \<and>
         (report_has_text ?st2 [] \<longrightarrow>
            Invalid_structure_item (Suc k) (remove_first ''.json'' ''b.json'')
              (case ?body of JBool b \<Rightarrow> ''boolean'' | JNum n \<Rightarrow> ''number''
               | JStr s \<Rightarrow> ''string'' | _ \<Rightarrow> ''object'')
            \<in> set (stdout (validate (Some ?data) ?dir))))"
    by (rule conjunct2 [THEN conjunct1])
  with na g t have "\<exists>k < length (invalid_structure ?st2).
         invalid_structure ?st2 ! k = (remove_first ''.json'' ''b.json'', ?body) \<and>
         (report_has_text ?st2 [] \<longrightarrow>
            Invalid_structure_item (Suc k) (remove_first ''.json'' ''b.json'')
              (case ?body of JBool b \<Rightarrow> ''boolean'' | JNum n \<Rightarrow> ''number''
               | JStr s \<Rightarrow> ''string'' | _ \<Rightarrow> ''object'')
            \<in> set (stdout (validate (Some ?data) ?dir)))"
    by (elim impE) (assumption | rule refl)+
  then obtain k where k: "k < length (invalid_structure ?st2)"
    and l: "report_has_text ?st2 [] \<longrightarrow>
            Invalid_structure_item (Suc k) (remove_first ''.json'' ''b.json'')
              (case ?body of JBool b \<Rightarrow> ''boolean'' | JNum n \<Rightarrow> ''number''
               | JStr s \<Rightarrow> ''string'' | _ \<Rightarrow> ''object'')
            \<in> set (stdout (validate (Some ?data) ?dir))"
    by (elim exE conjE)
  from k have k0: "k = 0" by (simp add: init_def)
  have "report_has_text ?st2 []" by (simp add: report_has_text_def init_def)
  with l have b: "Invalid_structure_item 1 ''b'' ''string'' \<in> set (stdout (validate (Some ?data) ?dir))"
    unfolding k0 cat by simp
  from inst have c: "exit_code (validate (Some ?data)
      (Entries ([(''a.json'', Some (JArr []))] @ (''b.json'', None) #
        [(''c.json'', Some (JArr []))]))) = 1"
    by (rule conjunct2 [THEN conjunct2, THEN conjunct2])
  from a b c show ?thesis by simp
qed

section \<open>The rules on one record\<close>

lemma primary_tool_missing_url:
  assumes "tool \<noteq> JNull" and "trimmed_url (field tool ''url'') = Inr u"
    and "u = None \<or> u = Some []"
  shows "primary_tool cat tool st =
     Inr (st\<lparr>totalTools := totalTools st + 1,
             missing_url := missing_url st @
               [\<lparr>title = field tool ''title'', category = field cat ''category'',
                 slug = field tool ''slug'', url = None\<rparr>]\<rparr>)"
  using assms by (auto simp: primary_tool_def getProp_def Let_def)

lemma split_tool_missing_url:
  assumes "tool \<noteq> JNull" and "\<not> truthy (field tool ''url'')"
  shows "split_tool c tool st =
     Inr (st\<lparr>splitToolsChecked := splitToolsChecked st + 1,
             missing_url := missing_url st @
               [\<lparr>title = field tool ''title'', category = Some (JStr c),
                 slug = field tool ''slug'', url = Some (field tool ''url'')\<rparr>]\<rparr>)"
  using assms by (simp add: split_tool_def getProp_def Let_def)

lemma primary_tool_with_url:
  assumes "tool \<noteq> JNull" and "field tool ''url'' = Some (JStr raw)" and "trim raw \<noteq> []"
  shows "primary_tool cat tool st =
     Inr (st\<lparr>totalTools := totalTools st + 1,
             missing_protocol := missing_protocol st @
               (if startsWith (trim raw) ''http://'' \<or> startsWith (trim raw) ''https://'' then []
                else [\<lparr>title = field tool ''title'', category = field cat ''category'',
                       slug = field tool ''slug'', url = Some (Some (JStr (trim raw)))\<rparr>]),
             missing_ref := missing_ref st @
               (if includes_str (trim raw) REQUIRED_REF then []
                else [\<lparr>title = field tool ''title'', category = field cat ''category'',
                       slug = field tool ''slug'', url = Some (Some (JStr (trim raw)))\<rparr>]),
             urlMap := track (trim raw)
                \<lparr>title = field tool ''title'', category = field cat ''category'',
                 slug = field tool ''slug'', url = None\<rparr> (urlMap st)\<rparr>)"
  using assms by (simp add: primary_tool_def getProp_def Let_def)

lemma split_tool_with_url:
  assumes "tool \<noteq> JNull" and "field tool ''url'' = Some (JStr s)" and "s \<noteq> []"
  shows "split_tool c tool st =
     Inr (st\<lparr>splitToolsChecked := splitToolsChecked st + 1,
             missing_protocol := missing_protocol st @
               (if startsWith s ''http://'' \<or> startsWith s ''https://'' then []
                else [\<lparr>title = field tool ''title'', category = Some (JStr c),
                       slug = field tool ''slug'', url = Some (Some (JStr s))\<rparr>]),
             missing_ref := missing_ref st @
               (if includes_str s REQUIRED_REF then []
                else [\<lparr>title = field tool ''title'', category = Some (JStr c),
                       slug = field tool ''slug'', url = Some (Some (JStr s))\<rparr>])\<rparr>)"
  using assms by (simp add: split_tool_def getProp_def Let_def)

text \<open>
  C3. The split path tests the url as it is stored (line 99), where the primary path
  tests the trimmed url (lines 34 and 43): a split record whose url is one space gets no
  \<open>missing_url\<close> entry and one entry in each of \<open>missing_protocol\<close> and
  \<open>missing_ref\<close>, while the same record in the primary dataset gets the single
  \<open>missing_url\<close> entry with title, category and slug. The report of the run on the
  split file lists the record under the two other headings.
\<close>

theorem split_blank_url_not_missing:
  "split_tool ''y'' (JObj [(''title'', JStr ''T''), (''url'', JStr '' '')]) init =
     Inr (init\<lparr>splitToolsChecked := 1,
       missing_protocol := [\<lparr>title = Some (JStr ''T''), category = Some (JStr ''y''), slug = None,
                              url = Some (Some (JStr '' ''))\<rparr>],
       missing_ref := [\<lparr>title = Some (JStr ''T''), category = Some (JStr ''y''), slug = None,
                              url = Some (Some (JStr '' ''))\<rparr>]\<rparr>) \<and>
   primary_tool (JObj [(''category'', JStr ''y'')])
       (JObj [(''title'', JStr ''T''), (''url'', JStr '' '')]) init =
     Inr (init\<lparr>totalTools := 1,
       missing_url := [\<lparr>title = Some (JStr ''T''), category = Some (JStr ''y''), slug = None,
                         url = None\<rparr>]\<rparr>) \<and>
   validate (Some (JObj [(''tools'', JArr [])]))
     (Entries [(''y.json'', Some (JArr [JObj [(''title'', JStr ''T''), (''url'', JStr '' '')]]))]) =
     \<lparr>stdout = [Report_title, Rule, Total_tools 0 (Some 1), Unique_urls 0,
         Missing_protocol_header 1, Url_item 1 (Some (JStr ''T'')) (Some (JStr '' '')), Blank,
         Missing_ref_header 1, Url_item 1 (Some (JStr ''T'')) (Some (JStr '' '')), Blank,
         Rule, Summary 2],
       stderr = [], exit_code = 1\<rparr>"
proof -
  let ?tool = "JObj [(''title'', JStr ''T''), (''url'', JStr '' '')]"
  have nn: "?tool \<noteq> JNull" by simp
  have u: "field ?tool ''url'' = Some (JStr '' '')" by simp
  have a: "split_tool ''y'' ?tool init = Inr (init\<lparr>splitToolsChecked := 1,
       missing_protocol := [\<lparr>title = Some (JStr ''T''), category = Some (JStr ''y''), slug = None,
                              url = Some (Some (JStr '' ''))\<rparr>],
       missing_ref := [\<lparr>title = Some (JStr ''T''), category = Some (JStr ''y''), slug = None,
                              url = Some (Some (JStr '' ''))\<rparr>]\<rparr>)"
    unfolding split_tool_with_url [OF nn u, simplified]
    by (simp add: init_def startsWith_def REQUIRED_REF_def)
  have t: "trimmed_url (field ?tool ''url'') = Inr (Some [])"
    by (simp add: trim_def is_space_def)
  have b: "primary_tool (JObj [(''category'', JStr ''y'')]) ?tool init =
     Inr (init\<lparr>totalTools := 1,
       missing_url := [\<lparr>title = Some (JStr ''T''), category = Some (JStr ''y''), slug = None,
                         url = None\<rparr>]\<rparr>)"
    unfolding primary_tool_missing_url [OF nn t, simplified]
    by (simp add: init_def)
  have c: "validate (Some (JObj [(''tools'', JArr [])]))
      (Entries [(''y.json'', Some (JArr [?tool]))]) =
     \<lparr>stdout = [Report_title, Rule, Total_tools 0 (Some 1), Unique_urls 0,
         Missing_protocol_header 1, Url_item 1 (Some (JStr ''T'')) (Some (JStr '' '')), Blank,
         Missing_ref_header 1, Url_item 1 (Some (JStr ''T'')) (Some (JStr '' '')), Blank,
         Rule, Summary 2],
       stderr = [], exit_code = 1\<rparr>"
    by (simp add: validate_def getProp_def traverse_def split_files_def split_file_def
        split_tool_def endsWith_def startsWith_def REQUIRED_REF_def duplicates_def sort_by_def
        report_def hasIssues_def issueCount_def header_def sections_def section_of_def
        andThen_def println_def throwing_def url_item_def has_text_def printed_url_def
        init_def Let_def)
  from a b c show ?thesis by (intro conjI)
qed

theorem split_blank_url_not_missing_witness:
  "(case split_tool ''y'' (JObj [(''title'', JStr ''T''), (''url'', JStr '' '')]) init of
      Inl e \<Rightarrow> False
    | Inr st \<Rightarrow> missing_url st = [] \<and> length (missing_protocol st) = 1 \<and>
        length (missing_ref st) = 1)"
  unfolding split_blank_url_not_missing [THEN conjunct1] by (simp add: init_def)


text \<open>
  The two checks are two separate statements on both paths. For a record whose url is a
  string, the url that a path examines being the trimmed one in the primary dataset and
  the stored one in a split file: when that url is not empty, the record gets no
  \<open>missing_url\<close> entry, a \<open>missing_protocol\<close> entry exactly when the url starts with
  neither \<open>http://\<close> nor \<open>https://\<close>, and a \<open>missing_ref\<close> entry exactly when the url
  does not contain the marker, each whatever the other check finds. The four combinations
  occur: \<open>ftp://x.com\<close> fails both checks, \<open>http://x.com\<close> the second only,
  \<open>x.com/?ref=riseofmachine.com\<close> the first only, and
  \<open>https://x.com/?ref=riseofmachine.com\<close> none.
\<close>

lemma checks_on_examined_url:
  assumes "tool \<noteq> JNull" and "field tool ''url'' = Some (JStr raw)"
  shows "(trim raw \<noteq> [] \<longrightarrow>
           (\<exists>st'. primary_tool cat tool st = Inr st' \<and> missing_url st' = missing_url st \<and>
              missing_protocol st' =
                (if startsWith (trim raw) ''http://'' \<or> startsWith (trim raw) ''https://''
                 then missing_protocol st
                 else missing_protocol st @
                   [\<lparr>title = field tool ''title'', category = field cat ''category'',
                     slug = field tool ''slug'', url = Some (Some (JStr (trim raw)))\<rparr>]) \<and>
              missing_ref st' =
                (if includes_str (trim raw) REQUIRED_REF
                 then missing_ref st
                 else missing_ref st @
                   [\<lparr>title = field tool ''title'', category = field cat ''category'',
                     slug = field tool ''slug'', url = Some (Some (JStr (trim raw)))\<rparr>]))) \<and>
         (raw \<noteq> [] \<longrightarrow>
           (\<exists>st'. split_tool c tool st = Inr st' \<and> missing_url st' = missing_url st \<and>
              missing_protocol st' =
                (if startsWith raw ''http://'' \<or> startsWith raw ''https://''
                 then missing_protocol st
                 else missing_protocol st @
                   [\<lparr>title = field tool ''title'', category = Some (JStr c),
                     slug = field tool ''slug'', url = Some (Some (JStr raw))\<rparr>]) \<and>
              missing_ref st' =
                (if includes_str raw REQUIRED_REF
                 then missing_ref st
                 else missing_ref st @
                   [\<lparr>title = field tool ''title'', category = Some (JStr c),
                     slug = field tool ''slug'', url = Some (Some (JStr raw))\<rparr>]))) \<and>
         (\<not> startsWith ''ftp://x.com'' ''http://'' \<and> \<not> startsWith ''ftp://x.com'' ''https://'' \<and>
            \<not> includes_str ''ftp://x.com'' REQUIRED_REF) \<and>
         (startsWith ''http://x.com'' ''http://'' \<and> \<not> includes_str ''http://x.com'' REQUIRED_REF) \<and>
         (\<not> startsWith ''x.com/?ref=riseofmachine.com'' ''http://'' \<and>
            \<not> startsWith ''x.com/?ref=riseofmachine.com'' ''https://'' \<and>
            includes_str ''x.com/?ref=riseofmachine.com'' REQUIRED_REF) \<and>
         (startsWith ''https://x.com/?ref=riseofmachine.com'' ''https://'' \<and>
            includes_str ''https://x.com/?ref=riseofmachine.com'' REQUIRED_REF)"
proof (intro conjI impI)
  assume "trim raw \<noteq> []"
  from primary_tool_with_url [OF assms this, of cat st]
  show "\<exists>st'. primary_tool cat tool st = Inr st' \<and> missing_url st' = missing_url st \<and>
      missing_protocol st' =
        (if startsWith (trim raw) ''http://'' \<or> startsWith (trim raw) ''https://''
         then missing_protocol st
         else missing_protocol st @
           [\<lparr>title = field tool ''title'', category = field cat ''category'',
             slug = field tool ''slug'', url = Some (Some (JStr (trim raw)))\<rparr>]) \<and>
      missing_ref st' =
        (if includes_str (trim raw) REQUIRED_REF
         then missing_ref st
         else missing_ref st @
           [\<lparr>title = field tool ''title'', category = field cat ''category'',
             slug = field tool ''slug'', url = Some (Some (JStr (trim raw)))\<rparr>])"
    by simp
next
  assume "raw \<noteq> []"
  from split_tool_with_url [OF assms this, of c st]
  show "\<exists>st'. split_tool c tool st = Inr st' \<and> missing_url st' = missing_url st \<and>
      missing_protocol st' =
        (if startsWith raw ''http://'' \<or> startsWith raw ''https://''
         then missing_protocol st
         else missing_protocol st @
           [\<lparr>title = field tool ''title'', category = Some (JStr c),
             slug = field tool ''slug'', url = Some (Some (JStr raw))\<rparr>]) \<and>
      missing_ref st' =
        (if includes_str raw REQUIRED_REF
         then missing_ref st
         else missing_ref st @
           [\<lparr>title = field tool ''title'', category = Some (JStr c),
             slug = field tool ''slug'', url = Some (Some (JStr raw))\<rparr>])"
    by simp
qed (simp_all add: startsWith_def REQUIRED_REF_def)

text \<open>
  C7. The two paths do not decide the protocol check on the same url: the split path
  tests the stored string (line 102), the primary path the trimmed one (lines 34 and
  49). A record whose url is \<open>https://x.com/?ref=riseofmachine.com\<close> after one space
  gets no finding in the primary dataset, where it is registered under the trimmed url,
  and a \<open>missing_protocol\<close> finding in a split file; so the run passes on the one and
  fails on the other.
\<close>

theorem split_untrimmed_protocol_check:
  "primary_tool (JObj [(''category'', JStr ''y'')])
       (JObj [(''title'', JStr ''T''), (''url'', JStr '' https://x.com/?ref=riseofmachine.com'')])
       init =
     Inr (init\<lparr>totalTools := 1,
       urlMap := [(''https://x.com/?ref=riseofmachine.com'',
         [\<lparr>title = Some (JStr ''T''), category = Some (JStr ''y''), slug = None,
           url = None\<rparr>])]\<rparr>) \<and>
   split_tool ''y''
       (JObj [(''title'', JStr ''T''), (''url'', JStr '' https://x.com/?ref=riseofmachine.com'')])
       init =
     Inr (init\<lparr>splitToolsChecked := 1,
       missing_protocol := [\<lparr>title = Some (JStr ''T''), category = Some (JStr ''y''),
         slug = None, url = Some (Some (JStr '' https://x.com/?ref=riseofmachine.com''))\<rparr>]\<rparr>) \<and>
   validate (Some (JObj [(''tools'', JArr [JObj [(''category'', JStr ''y''), (''content'',
       JArr [JObj [(''title'', JStr ''T''),
                   (''url'', JStr '' https://x.com/?ref=riseofmachine.com'')]])]])])) Absent =
     \<lparr>stdout = [Report_title, Rule, Total_tools 1 None, Unique_urls 1, Rule, All_passed],
       stderr = [], exit_code = 0\<rparr> \<and>
   validate (Some (JObj [(''tools'', JArr [])]))
     (Entries [(''y.json'', Some (JArr [JObj [(''title'', JStr ''T''),
        (''url'', JStr '' https://x.com/?ref=riseofmachine.com'')]]))]) =
     \<lparr>stdout = [Report_title, Rule, Total_tools 0 (Some 1), Unique_urls 0,
         Missing_protocol_header 1,
         Url_item 1 (Some (JStr ''T'')) (Some (JStr '' https://x.com/?ref=riseofmachine.com'')),
         Blank, Rule, Summary 1],
       stderr = [], exit_code = 1\<rparr>"
proof -
  let ?u = "'' https://x.com/?ref=riseofmachine.com''"
  let ?tool = "JObj [(''title'', JStr ''T''), (''url'', JStr ?u)]"
  have tr: "trim ?u = ''https://x.com/?ref=riseofmachine.com''"
    by (simp add: trim_def is_space_def)
  have a: "primary_tool (JObj [(''category'', JStr ''y'')]) ?tool init =
     Inr (init\<lparr>totalTools := 1,
       urlMap := [(''https://x.com/?ref=riseofmachine.com'',
         [\<lparr>title = Some (JStr ''T''), category = Some (JStr ''y''), slug = None,
           url = None\<rparr>])]\<rparr>)"
    by (simp add: primary_tool_def getProp_def tr startsWith_def REQUIRED_REF_def track_def
        init_def Let_def)
  have b: "split_tool ''y'' ?tool init =
     Inr (init\<lparr>splitToolsChecked := 1,
       missing_protocol := [\<lparr>title = Some (JStr ''T''), category = Some (JStr ''y''),
         slug = None, url = Some (Some (JStr ?u))\<rparr>]\<rparr>)"
    by (simp add: split_tool_def getProp_def startsWith_def REQUIRED_REF_def init_def Let_def)
  have c: "validate (Some (JObj [(''tools'', JArr [JObj [(''category'', JStr ''y''), (''content'',
       JArr [?tool])]])])) Absent =
     \<lparr>stdout = [Report_title, Rule, Total_tools 1 None, Unique_urls 1, Rule, All_passed],
       stderr = [], exit_code = 0\<rparr>"
    by (simp add: validate_def getProp_def traverse_def primary_category_def primary_tool_def
        tr startsWith_def REQUIRED_REF_def track_def split_files_def duplicates_def
        sort_by_def report_clean hasIssues_def header_def init_def Let_def)
  have d: "validate (Some (JObj [(''tools'', JArr [])]))
     (Entries [(''y.json'', Some (JArr [?tool]))]) =
     \<lparr>stdout = [Report_title, Rule, Total_tools 0 (Some 1), Unique_urls 0,
         Missing_protocol_header 1, Url_item 1 (Some (JStr ''T'')) (Some (JStr ?u)),
         Blank, Rule, Summary 1],
       stderr = [], exit_code = 1\<rparr>"
    by (simp add: validate_def getProp_def traverse_def split_files_def split_file_def
        split_tool_def endsWith_def startsWith_def REQUIRED_REF_def duplicates_def sort_by_def
        report_def hasIssues_def issueCount_def header_def sections_def section_of_def
        andThen_def println_def throwing_def url_item_def has_text_def printed_url_def
        init_def Let_def)
  from a b c d show ?thesis by (intro conjI)
qed

theorem split_untrimmed_protocol_check_witness:
  "(case split_tool ''y''
       (JObj [(''title'', JStr ''T''), (''url'', JStr '' https://x.com/?ref=riseofmachine.com'')])
       init of
      Inl e \<Rightarrow> False
    | Inr st \<Rightarrow> length (missing_protocol st) = 1 \<and> missing_ref st = [] \<and> missing_url st = []) \<and>
   (case primary_tool (JObj [(''category'', JStr ''y'')])
       (JObj [(''title'', JStr ''T''), (''url'', JStr '' https://x.com/?ref=riseofmachine.com'')])
       init of
      Inl e \<Rightarrow> False
    | Inr st \<Rightarrow> missing_protocol st = [] \<and> missing_ref st = [] \<and> missing_url st = [])"
  unfolding split_untrimmed_protocol_check [THEN conjunct1]
    split_untrimmed_protocol_check [THEN conjunct2, THEN conjunct1]
  by (simp add: init_def)

section \<open>The duplicate groups\<close>

lemma traverse_dups:
  assumes "traverse tools dir = Inr (st, dups)"
  shows "dups = duplicates (urlMap st)"
proof -
  from assms obtain st0 where p: "forEach primary_category tools init = Inr st0"
    and s: "split_files dir st0 = Inr st" and d: "dups = duplicates (urlMap st0)"
    by (auto simp: traverse_def Let_def split: sum.splits)
  from s have "urlMap st = urlMap st0" by (rule split_files_urlMap)
  with d show ?thesis by simp
qed

lemma insert_by_count:
  "insert_by by_count x ys = insort_key (\<lambda>e. - int (length (snd e))) x ys"
  by (induction ys) (simp_all add: by_count_def)

lemma sort_by_count: "sort_by by_count xs = sort_key (\<lambda>e. - int (length (snd e))) xs"
  by (induction xs) (simp_all add: sort_by_def sort_key_def insert_by_count)

lemma duplicates_alt:
  "duplicates m = sort_key (\<lambda>e. - int (length (snd e))) (filter (\<lambda>e. 1 < length (snd e)) m)"
  by (simp add: duplicates_def sort_by_count case_prod_unfold)

text \<open>
  C5. The duplicate groups that the report lists are \<open>duplicates\<close> of the URL map as it
  is after the whole traversal. They are exactly the entries of the map with more than
  one owner; they are in descending order of owner count; and for every count the groups
  of that count stand in the order in which the map holds them, the order in which their
  keys were first set. A map holding a group of two, a group of one and a group of three
  gives the group of three and then the group of two.
\<close>

theorem duplicates_sorted_groups:
  "(traverse tools dir = Inr (st, dups) \<longrightarrow> dups = duplicates (urlMap st)) \<and>
   set (duplicates m) = {e \<in> set m. 1 < length (snd e)} \<and>
   length (duplicates m) = length (filter (\<lambda>e. 1 < length (snd e)) m) \<and>
   sorted_wrt (\<lambda>a b. length (snd b) \<le> length (snd a)) (duplicates m) \<and>
   filter (\<lambda>e. length (snd e) = k) (duplicates m) =
     filter (\<lambda>e. length (snd e) = k \<and> 1 < length (snd e)) m \<and>
   duplicates [(ub, [b1, b2]), (uc, [c1]), (ua, [a1, a2, a3])] =
     [(ua, [a1, a2, a3]), (ub, [b1, b2])]"
proof (intro conjI impI)
  assume "traverse tools dir = Inr (st, dups)"
  then show "dups = duplicates (urlMap st)" by (rule traverse_dups)
next
  show "set (duplicates m) = {e \<in> set m. 1 < length (snd e)}"
    by (simp add: duplicates_alt)
next
  show "length (duplicates m) = length (filter (\<lambda>e. 1 < length (snd e)) m)"
    by (simp add: duplicates_alt)
next
  have "sorted (map (\<lambda>e. - int (length (snd e))) (duplicates m))"
    unfolding duplicates_alt by (rule sorted_sort_key)
  then show "sorted_wrt (\<lambda>a b. length (snd b) \<le> length (snd a)) (duplicates m)"
    by (simp add: sorted_map)
next
  have "filter (\<lambda>e. - int (length (snd e)) = - int k) (duplicates m) =
      filter (\<lambda>e. - int (length (snd e)) = - int k) (filter (\<lambda>e. 1 < length (snd e)) m)"
    unfolding duplicates_alt by (rule sort_key_stable)
  then show "filter (\<lambda>e. length (snd e) = k) (duplicates m) =
      filter (\<lambda>e. length (snd e) = k \<and> 1 < length (snd e)) m"
    by (simp add: conj_commute)
next
  show "duplicates [(ub, [b1, b2]), (uc, [c1]), (ua, [a1, a2, a3])] =
      [(ua, [a1, a2, a3]), (ub, [b1, b2])]"
    by (simp add: duplicates_def sort_by_def by_count_def)
qed

theorem duplicates_sorted_groups_witness:
  "duplicates
     [(''https://b.com/?ref=riseofmachine.com'',
         [\<lparr>title = Some (JStr ''b1''), category = None, slug = None, url = None\<rparr>,
          \<lparr>title = Some (JStr ''b2''), category = None, slug = None, url = None\<rparr>]),
      (''https://c.com/?ref=riseofmachine.com'',
         [\<lparr>title = Some (JStr ''c1''), category = None, slug = None, url = None\<rparr>]),
      (''https://a.com/?ref=riseofmachine.com'',
         [\<lparr>title = Some (JStr ''a1''), category = None, slug = None, url = None\<rparr>,
          \<lparr>title = Some (JStr ''a2''), category = None, slug = None, url = None\<rparr>,
          \<lparr>title = Some (JStr ''a3''), category = None, slug = None, url = None\<rparr>])] =
     [(''https://a.com/?ref=riseofmachine.com'',
         [\<lparr>title = Some (JStr ''a1''), category = None, slug = None, url = None\<rparr>,
          \<lparr>title = Some (JStr ''a2''), category = None, slug = None, url = None\<rparr>,
          \<lparr>title = Some (JStr ''a3''), category = None, slug = None, url = None\<rparr>]),
      (''https://b.com/?ref=riseofmachine.com'',
         [\<lparr>title = Some (JStr ''b1''), category = None, slug = None, url = None\<rparr>,
          \<lparr>title = Some (JStr ''b2''), category = None, slug = None, url = None\<rparr>])]"
  by (rule duplicates_sorted_groups [THEN conjunct2, THEN conjunct2, THEN conjunct2,
        THEN conjunct2, THEN conjunct2])

text \<open>
  The example of the specification, on a whole run: two records under one url and three
  under another, the pair met first, give the group of three and then the group of
  two.
\<close>

lemma duplicates_example_run:
  "(case traverse [JObj [(''category'', JStr ''c''), (''content'', JArr [
      JObj [(''title'', JStr ''b1''), (''url'', JStr ''https://b.com/?ref=riseofmachine.com'')],
      JObj [(''title'', JStr ''a1''), (''url'', JStr ''https://a.com/?ref=riseofmachine.com'')],
      JObj [(''title'', JStr ''b2''), (''url'', JStr ''https://b.com/?ref=riseofmachine.com'')],
      JObj [(''title'', JStr ''a2''), (''url'', JStr ''https://a.com/?ref=riseofmachine.com'')],
      JObj [(''title'', JStr ''a3''), (''url'', JStr ''https://a.com/?ref=riseofmachine.com'')]])]]
      Absent of
      Inl e \<Rightarrow> []
    | Inr (st, dups) \<Rightarrow> map (\<lambda>(u, g). (u, map title g)) dups) =
   [(''https://a.com/?ref=riseofmachine.com'',
       [Some (JStr ''a1''), Some (JStr ''a2''), Some (JStr ''a3'')]),
    (''https://b.com/?ref=riseofmachine.com'', [Some (JStr ''b1''), Some (JStr ''b2'')])]"
  by (simp add: traverse_def primary_category_def primary_tool_def getProp_def split_files_def
      duplicates_def sort_by_def by_count_def init_def track_def trim_def is_space_def
      startsWith_def REQUIRED_REF_def Let_def)

section \<open>The URL map is built from the primary dataset only\<close>

lemma map_of_track:
  "map_of (track u i m) k = (if k = u then Some (owners m u @ [i]) else map_of m k)"
  by (simp add: track_def owners_def Let_def update_conv' split: option.splits)

lemma keys_track:
  "map fst (track u i m) = (if u \<in> set (map fst m) then map fst m else map fst m @ [u])"
  by (auto simp: track_def Let_def update_keys map_of_eq_None_iff dom_update)

lemma owners_track: "owners (track u i m) k = owners m k @ (if k = u then [i] else [])"
  by (simp add: owners_def map_of_track)

lemma groups_ok_track: "groups_ok m \<Longrightarrow> u \<noteq> [] \<Longrightarrow> groups_ok (track u i m)"
  by (simp add: groups_ok_def map_of_track)

lemma map_of_owners:
  "groups_ok m \<Longrightarrow> map_of m u = (if owners m u = [] then None else Some (owners m u))"
  by (auto simp: groups_ok_def owners_def split: option.splits)

lemma primary_tool_owners:
  assumes "primary_tool cat tool st = Inr st'" and "u \<noteq> []"
  shows "owners (urlMap st') u =
      owners (urlMap st) u @
        (if trimmed_url (field tool ''url'') = Inr (Some u) then [owner (cat, tool)] else [])"
  using assms
  by (auto simp: primary_tool_def getProp_def Let_def owners_track owner_def
      split: if_splits sum.splits option.splits)

lemma primary_tool_groups_ok:
  assumes "primary_tool cat tool st = Inr st'" and "groups_ok (urlMap st)"
  shows "groups_ok (urlMap st')"
  using assms
  by (auto simp: primary_tool_def getProp_def Let_def groups_ok_track
      split: if_splits sum.splits option.splits)

lemma primary_tools_owners:
  assumes "forEach (primary_tool cat) ts st = Inr st'" and "u \<noteq> []"
  shows "owners (urlMap st') u =
      owners (urlMap st) u @
        map owner (filter (\<lambda>r. trimmed_url (field (snd r) ''url'') = Inr (Some u))
          (map (Pair cat) ts))"
  using assms(1)
proof (induction ts arbitrary: st)
  case Nil
  then show ?case by simp
next
  case (Cons t ts)
  then obtain s1 where s1: "primary_tool cat t st = Inr s1"
    and rest: "forEach (primary_tool cat) ts s1 = Inr st'"
    by (auto split: sum.splits)
  from Cons.IH [OF rest] primary_tool_owners [OF s1 \<open>u \<noteq> []\<close>]
  show ?case by simp
qed

lemma primary_tools_groups_ok:
  assumes "forEach (primary_tool cat) ts st = Inr st'" and "groups_ok (urlMap st)"
  shows "groups_ok (urlMap st')"
  using assms
proof (induction ts arbitrary: st)
  case Nil
  then show ?case by simp
next
  case (Cons t ts)
  then obtain s1 where s1: "primary_tool cat t st = Inr s1"
    and rest: "forEach (primary_tool cat) ts s1 = Inr st'"
    by (auto split: sum.splits)
  from primary_tool_groups_ok [OF s1 Cons.prems(2)] have "groups_ok (urlMap s1)" .
  from Cons.IH [OF rest this] show ?case .
qed

lemma isArray_truthy: "isArray v \<Longrightarrow> truthy v"
  by (cases v rule: isArray.cases) simp_all

lemma primary_category_alt:
  "primary_category cat st =
     (if cat = JNull then Inl TypeError
      else if isArray (field cat ''content'')
        then forEach (primary_tool cat) (elems (field cat ''content'')) st
        else Inr st)"
  by (auto simp: primary_category_def getProp_def isArray_truthy)

lemma primary_category_cases:
  assumes "primary_category cat st = Inr st'"
  obtains "isArray (field cat ''content'')"
      and "forEach (primary_tool cat) (elems (field cat ''content'')) st = Inr st'"
    | "\<not> isArray (field cat ''content'')" and "st' = st"
  using assms
  by (cases "isArray (field cat ''content'')")
     (auto simp: primary_category_alt split: if_splits)

lemma primary_categories_owners:
  assumes "forEach primary_category tools st = Inr st'" and "u \<noteq> []"
  shows "owners (urlMap st') u = owners (urlMap st) u @ registered_under u tools"
  using assms(1)
proof (induction tools arbitrary: st)
  case Nil
  then show ?case by (simp add: registered_under_def primary_records_def)
next
  case (Cons cat tools)
  then obtain s1 where s1: "primary_category cat st = Inr s1"
    and rest: "forEach primary_category tools s1 = Inr st'"
    by (auto split: sum.splits)
  have "owners (urlMap s1) u = owners (urlMap st) u @ registered_under u [cat]"
    using s1
  proof (cases rule: primary_category_cases)
    case 1
    from primary_tools_owners [OF 1(2) \<open>u \<noteq> []\<close>] 1(1) show ?thesis
      by (simp add: registered_under_def primary_records_def)
  next
    case 2
    then show ?thesis by (simp add: registered_under_def primary_records_def)
  qed
  moreover have "registered_under u (cat # tools) =
      registered_under u [cat] @ registered_under u tools"
    by (simp add: registered_under_def primary_records_def)
  ultimately show ?case using Cons.IH [OF rest] by simp
qed

lemma primary_categories_groups_ok:
  assumes "forEach primary_category tools st = Inr st'" and "groups_ok (urlMap st)"
  shows "groups_ok (urlMap st')"
  using assms
proof (induction tools arbitrary: st)
  case Nil
  then show ?case by simp
next
  case (Cons cat tools)
  then obtain s1 where s1: "primary_category cat st = Inr s1"
    and rest: "forEach primary_category tools s1 = Inr st'"
    by (auto split: sum.splits)
  have "groups_ok (urlMap s1)"
    using s1
  proof (cases rule: primary_category_cases)
    case 1
    from primary_tools_groups_ok [OF 1(2) Cons.prems(2)] show ?thesis .
  next
    case 2
    with Cons.prems(2) show ?thesis by simp
  qed
  from Cons.IH [OF rest this] show ?case .
qed


text \<open>
  C6. After a traversal that completes, the URL map holds under every non-empty key
  \<open>u\<close> exactly the owners (title, category, slug) of the primary records whose trimmed
  url is \<open>u\<close>, in the order of the stream and whatever the protocol and marker checks
  found for them; a url with no such record is not a key, and neither is the empty
  string. The split files add nothing: the map is the one that the primary dataset alone
  gives, and the duplicate groups are those of the run with no split directory.
\<close>

theorem urlMap_primary_only:
  assumes "traverse tools dir = Inr (st, dups)"
  shows "(u \<noteq> [] \<longrightarrow>
            map_of (urlMap st) u =
              (if registered_under u tools = [] then None
               else Some (registered_under u tools))) \<and>
         map_of (urlMap st) [] = None \<and>
         (\<exists>st0. forEach primary_category tools init = Inr st0 \<and> urlMap st = urlMap st0 \<and>
            traverse tools Absent = Inr (st0, dups))"
proof -
  from assms obtain st0 where p: "forEach primary_category tools init = Inr st0"
    and sp: "split_files dir st0 = Inr st" and d: "dups = duplicates (urlMap st0)"
    by (auto simp: traverse_def Let_def split: sum.splits)
  from sp have same: "urlMap st = urlMap st0" by (rule split_files_urlMap)
  have "groups_ok (urlMap init)" by (simp add: groups_ok_def init_def)
  with p have ok: "groups_ok (urlMap st0)" by (rule primary_categories_groups_ok)
  have reg: "owners (urlMap st0) u = registered_under u tools" if "u \<noteq> []"
    using primary_categories_owners [OF p that] by (simp add: owners_def init_def)
  have "map_of (urlMap st) u =
      (if registered_under u tools = [] then None else Some (registered_under u tools))"
    if "u \<noteq> []"
    using map_of_owners [OF ok, of u] reg [OF that] same by simp
  moreover from ok same have "map_of (urlMap st) [] = None" by (simp add: groups_ok_def)
  moreover from p d have "traverse tools Absent = Inr (st0, dups)"
    by (simp add: traverse_def split_files_def)
  ultimately show ?thesis using p same by blast
qed

theorem urlMap_primary_only_witness:
  "\<exists>st dups.
     traverse [JObj [(''content'', JArr [JObj [(''url'', JStr ''ftp://x.com'')],
                                         JObj [(''url'', JStr '' ftp://x.com'')]])]]
       (Entries [(''s.json'', Some (JArr [JObj [(''url'', JStr ''ftp://x.com'')]]))]) = Inr (st, dups) \<and>
     map_of (urlMap st) ''ftp://x.com'' =
       Some [\<lparr>title = None, category = None, slug = None, url = None\<rparr>,
             \<lparr>title = None, category = None, slug = None, url = None\<rparr>] \<and>
     length (missing_protocol st) = 3"
proof -
  let ?tools = "[JObj [(''content'', JArr [JObj [(''url'', JStr ''ftp://x.com'')],
                                         JObj [(''url'', JStr '' ftp://x.com'')]])]]"
  let ?dir = "Entries [(''s.json'', Some (JArr [JObj [(''url'', JStr ''ftp://x.com'')]]))]"
  have "\<exists>st dups. traverse ?tools ?dir = Inr (st, dups) \<and> length (missing_protocol st) = 3"
    by (simp add: traverse_def primary_category_def primary_tool_def getProp_def split_files_def
        split_file_def split_tool_def endsWith_def track_def trim_def is_space_def
        startsWith_def REQUIRED_REF_def init_def Let_def)
  then obtain st dups where t: "traverse ?tools ?dir = Inr (st, dups)"
    and n: "length (missing_protocol st) = 3"
    by (elim exE conjE)
  have r: "registered_under ''ftp://x.com'' ?tools =
      [\<lparr>title = None, category = None, slug = None, url = None\<rparr>,
       \<lparr>title = None, category = None, slug = None, url = None\<rparr>]"
    by (simp add: registered_under_def primary_records_def owner_def trim_def is_space_def)
  from urlMap_primary_only [OF t, of "''ftp://x.com''"] r
  have "map_of (urlMap st) ''ftp://x.com'' =
      Some [\<lparr>title = None, category = None, slug = None, url = None\<rparr>,
            \<lparr>title = None, category = None, slug = None, url = None\<rparr>]"
    by simp
  with t n show ?thesis by (intro exI conjI)
qed

section \<open>The slug generator\<close>

lemma set_replace_runs: "set (replace_runs P n rep s) \<subseteq> set s \<union> set rep"
proof (induction P n rep s rule: replace_runs.induct)
  case (1 P n rep)
  then show ?case by simp
next
  case (2 P n rep c cs)
  show ?case
  proof (cases "P c \<and> n \<le> Suc (length (takeWhile P cs))")
    case True
    with 2 have "set (replace_runs P n rep (dropWhile P cs)) \<subseteq> set (dropWhile P cs) \<union> set rep"
      by simp
    moreover have "set (dropWhile P cs) \<subseteq> set cs" by (auto dest: set_dropWhileD)
    ultimately show ?thesis using True by auto
  next
    case False
    with 2 have "set (replace_runs P n rep cs) \<subseteq> set cs \<union> set rep" by simp
    with False show ?thesis by auto
  qed
qed

lemma filter_dropWhile_not: "filter (\<lambda>c. \<not> P c) (dropWhile P cs) = filter (\<lambda>c. \<not> P c) cs"
  by (induction cs) simp_all

lemma replace_runs_remove: "replace_runs P 1 [] s = filter (\<lambda>c. \<not> P c) s"
proof (induction P "1::nat" "[] :: 'a list" s rule: replace_runs.induct)
  case (1 P)
  then show ?case by simp
next
  case (2 P c cs)
  then show ?case by (simp add: filter_dropWhile_not)
qed

lemma collapse_no_adjacent: "\<not> adjacent_hyphens (replace_runs is_hyphen 2 [hyphen] s)"
proof (induction is_hyphen "2::nat" "[hyphen]" s rule: replace_runs.induct)
  case 1
  then show ?case by simp
next
  case (2 c cs)
  show ?case
  proof (cases "is_hyphen c \<and> 2 \<le> Suc (length (takeWhile is_hyphen cs))")
    case True
    with 2 have ih: "\<not> adjacent_hyphens (replace_runs is_hyphen 2 [hyphen] (dropWhile is_hyphen cs))"
      by simp
    have "\<not> adjacent_hyphens (hyphen # replace_runs is_hyphen 2 [hyphen] (dropWhile is_hyphen cs))"
    proof (cases "dropWhile is_hyphen cs")
      case Nil
      show ?thesis unfolding Nil by simp
    next
      case (Cons d ds)
      have "\<not> is_hyphen d" using hd_dropWhile [of is_hyphen cs] unfolding Cons by simp
      with ih show ?thesis unfolding Cons by simp
    qed
    with True show ?thesis by simp
  next
    case False
    with 2 have ih: "\<not> adjacent_hyphens (replace_runs is_hyphen 2 [hyphen] cs)" by simp
    show ?thesis
    proof (cases cs)
      case Nil
      with False show ?thesis by simp
    next
      case (Cons d ds)
      show ?thesis
      proof (cases "is_hyphen d")
        case True
        with False Cons have "\<not> is_hyphen c" by simp
        with False ih show ?thesis
          by (cases "replace_runs is_hyphen 2 [hyphen] cs") simp_all
      next
        case nd: False
        with ih Cons False show ?thesis by simp
      qed
    qed
  qed
qed

lemma adjacent_hyphens_append: "adjacent_hyphens xs \<Longrightarrow> adjacent_hyphens (xs @ ys)"
  by (induction xs rule: adjacent_hyphens.induct) auto

lemma adjacent_hyphens_prepend: "adjacent_hyphens ys \<Longrightarrow> adjacent_hyphens (xs @ ys)"
proof (induction xs)
  case Nil
  then show ?case by simp
next
  case (Cons x xs)
  then have "adjacent_hyphens (xs @ ys)" by simp
  then show ?case by (cases "xs @ ys") simp_all
qed

lemma adjacent_hyphens_mid: "adjacent_hyphens (xs @ [hyphen, hyphen] @ ys)"
  by (rule adjacent_hyphens_prepend) (simp add: is_hyphen_def)

lemma strip_end_prefix: "\<exists>zs. s = rev (dropWhile P (rev s)) @ zs"
proof -
  have "rev (dropWhile P (rev s)) @ rev (takeWhile P (rev s)) =
      rev (takeWhile P (rev s) @ dropWhile P (rev s))"
    by (simp only: rev_append)
  also have "\<dots> = rev (rev s)" by (simp only: takeWhile_dropWhile_id)
  also have "\<dots> = s" by simp
  finally have "s = rev (dropWhile P (rev s)) @ rev (takeWhile P (rev s))" by (rule sym)
  then show ?thesis ..
qed

lemma strip_start_suffix: "\<exists>zs. s = zs @ dropWhile P s"
proof -
  have "s = takeWhile P s @ dropWhile P s" by simp
  then show ?thesis ..
qed


lemma set_trim_units: "u \<in> set (trim_units s) \<Longrightarrow> u \<in> set s"
proof -
  assume "u \<in> set (trim_units s)"
  then have "u \<in> set (dropWhile is_space_unit (rev (dropWhile is_space_unit s)))"
    by (simp add: trim_units_def)
  then have "u \<in> set (rev (dropWhile is_space_unit s))" by (rule set_dropWhileD)
  then have "u \<in> set (dropWhile is_space_unit s)" by simp
  then show "u \<in> set s" by (rule set_dropWhileD)
qed

lemma lower_unit_not_upper: "u \<in> set (lower_unit v) \<Longrightarrow> \<not> is_upper_unit u"
  unfolding lower_unit_def is_upper_unit_def
  by (auto split: if_splits)

lemma lower_basic_not_upper: "u \<in> set (lower_basic s) \<Longrightarrow> \<not> is_upper_unit u"
  unfolding lower_basic_def using lower_unit_not_upper by auto

lemmas slugify_run =
  slugify_def lower_basic_def lower_unit_def units_def trim_units_def is_space_unit_def
  is_word_unit_def is_upper_unit_def is_lower_unit_def is_digit_unit_def is_hyphen_def
  hyphen_def underscore_def Let_def

text \<open>
  C9. For every JavaScript string, \<open>slugify\<close> lowercases it, trims it, puts one hyphen
  for every run of white space, drops every code unit that is neither a word character
  nor a hyphen, puts one hyphen for every run of two or more hyphens, and strips the
  hyphens at the start and at the end, in this order. So every code unit of the result is
  a lowercase letter \<open>a\<close> to \<open>z\<close>, a digit, an underscore or a hyphen; no two hyphens
  are adjacent; and the result neither starts nor ends with a hyphen. Of \<open>toLowerCase\<close>
  the proof uses one fact: its result on the argument holds none of the letters \<open>A\<close> to
  \<open>Z\<close>.
\<close>

theorem slugify_output:
  assumes lower: "\<And>u. u \<in> set (toLowerCase t) \<Longrightarrow> \<not> is_upper_unit u"
  shows "slugify toLowerCase t =
     rev (dropWhile is_hyphen (rev (dropWhile is_hyphen
       (replace_runs is_hyphen 2 [hyphen]
         (filter (\<lambda>u. is_word_unit u \<or> is_hyphen u)
           (replace_runs is_space_unit 1 [hyphen] (trim_units (toLowerCase t)))))))) \<and>
   (\<forall>u \<in> set (slugify toLowerCase t).
      is_lower_unit u \<or> is_digit_unit u \<or> u = underscore \<or> u = hyphen) \<and>
   \<not> (\<exists>xs ys. slugify toLowerCase t = xs @ [hyphen, hyphen] @ ys) \<and>
   \<not> (\<exists>ys. slugify toLowerCase t = hyphen # ys) \<and>
   \<not> (\<exists>xs. slugify toLowerCase t = xs @ [hyphen])"
proof -
  define s1 where "s1 = toLowerCase t"
  define s2 where "s2 = trim_units s1"
  define s3 where "s3 = replace_runs is_space_unit 1 [hyphen] s2"
  define s4 where "s4 = replace_runs (\<lambda>u. \<not> (is_word_unit u \<or> is_hyphen u)) 1 [] s3"
  define s5 where "s5 = replace_runs is_hyphen 2 [hyphen] s4"
  define s6 where "s6 = dropWhile is_hyphen s5"
  define s7 where "s7 = rev (dropWhile is_hyphen (rev s6))"
  have slug: "slugify toLowerCase t = s7"
    by (simp add: slugify_def Let_def s1_def s2_def s3_def s4_def s5_def s6_def s7_def)
  obtain zs where s6: "s6 = s7 @ zs"
    unfolding s7_def using strip_end_prefix [of s6 is_hyphen] by blast
  obtain ws where s5: "s5 = ws @ s6"
    unfolding s6_def using strip_start_suffix [of s5 is_hyphen] by blast
  have chars: "is_lower_unit u \<or> is_digit_unit u \<or> u = underscore \<or> u = hyphen"
    if u: "u \<in> set s7" for u
  proof (cases "u = hyphen")
    case True
    then show ?thesis by simp
  next
    case False
    from u s6 s5 have "u \<in> set s5" by simp
    with set_replace_runs [of is_hyphen 2 "[hyphen]" s4] False have u4: "u \<in> set s4"
      by (auto simp: s5_def)
    then have w: "is_word_unit u \<or> is_hyphen u" and "u \<in> set s3"
      unfolding s4_def replace_runs_remove by simp_all
    with set_replace_runs [of is_space_unit 1 "[hyphen]" s2] False have "u \<in> set s2"
      by (auto simp: s3_def)
    then have "u \<in> set s1"
      unfolding s2_def by (rule set_trim_units)
    then have "\<not> is_upper_unit u"
      unfolding s1_def by (rule lower)
    with w False show ?thesis by (simp add: is_word_unit_def is_hyphen_def)
  qed
  have "\<not> adjacent_hyphens s5" unfolding s5_def by (rule collapse_no_adjacent)
  then have "\<not> adjacent_hyphens s6" unfolding s5 by (blast dest: adjacent_hyphens_prepend)
  then have adj: "\<not> adjacent_hyphens s7" unfolding s6 by (blast dest: adjacent_hyphens_append)
  have double: "\<not> (\<exists>xs ys. s7 = xs @ [hyphen, hyphen] @ ys)"
  proof
    assume "\<exists>xs ys. s7 = xs @ [hyphen, hyphen] @ ys"
    then obtain xs ys where "s7 = xs @ [hyphen, hyphen] @ ys" by blast
    then have "adjacent_hyphens s7" by (simp only: adjacent_hyphens_mid)
    with adj show False ..
  qed
  have start: "\<not> (\<exists>ys. s7 = hyphen # ys)"
  proof
    assume "\<exists>ys. s7 = hyphen # ys"
    then obtain ys where "s7 = hyphen # ys" ..
    with s6 have "s6 \<noteq> []" and "hd s6 = hyphen" by simp_all
    moreover have "s6 \<noteq> [] \<Longrightarrow> \<not> is_hyphen (hd s6)"
      unfolding s6_def by (rule hd_dropWhile)
    ultimately show False by (simp add: is_hyphen_def)
  qed
  have finish: "\<not> (\<exists>xs. s7 = xs @ [hyphen])"
  proof
    assume "\<exists>xs. s7 = xs @ [hyphen]"
    then obtain xs where "s7 = xs @ [hyphen]" ..
    then have "rev s7 = hyphen # rev xs" by simp
    then have "dropWhile is_hyphen (rev s6) = hyphen # rev xs" by (simp add: s7_def)
    then have "dropWhile is_hyphen (rev s6) \<noteq> []"
      and "hd (dropWhile is_hyphen (rev s6)) = hyphen" by simp_all
    with hd_dropWhile [of is_hyphen "rev s6"] show False by (simp add: is_hyphen_def)
  qed
  have "s7 =
     rev (dropWhile is_hyphen (rev (dropWhile is_hyphen
       (replace_runs is_hyphen 2 [hyphen]
         (filter (\<lambda>u. is_word_unit u \<or> is_hyphen u)
           (replace_runs is_space_unit 1 [hyphen] (trim_units (toLowerCase t))))))))"
    unfolding s7_def s6_def s5_def s4_def replace_runs_remove s3_def s2_def s1_def by simp
  with chars double start finish show ?thesis unfolding slug by blast
qed

theorem slugify_output_witness:
  "slugify lower_basic (units ''  Hello,  World -- Foo_Bar!  '') = units ''hello-world-foo_bar'' \<and>
   \<not> (\<exists>xs ys. slugify lower_basic (units ''  Hello,  World -- Foo_Bar!  '') =
      xs @ [hyphen, hyphen] @ ys) \<and>
   \<not> (\<exists>xs. slugify lower_basic (units ''  Hello,  World -- Foo_Bar!  '') = xs @ [hyphen])"
proof -
  have v: "slugify lower_basic (units ''  Hello,  World -- Foo_Bar!  '') =
      units ''hello-world-foo_bar''"
    by (simp add: slugify_run)
  note out = slugify_output [of lower_basic "units ''  Hello,  World -- Foo_Bar!  ''",
      OF lower_basic_not_upper]
  from out have a: "\<not> (\<exists>xs ys. slugify lower_basic (units ''  Hello,  World -- Foo_Bar!  '') =
      xs @ [hyphen, hyphen] @ ys)"
    by (rule conjunct2 [THEN conjunct2, THEN conjunct1])
  from out have b: "\<not> (\<exists>xs. slugify lower_basic (units ''  Hello,  World -- Foo_Bar!  '') =
      xs @ [hyphen])"
    by (rule conjunct2 [THEN conjunct2, THEN conjunct2, THEN conjunct2])
  from v a b show ?thesis by (intro conjI)
qed

text \<open>
  A string with the Kelvin sign, an em space and U+0130, whose lowercase forms are \<open>k\<close>,
  the space itself and \<open>i\<close> with a combining dot.
\<close>

lemma slugify_beyond_latin:
  "slugify lower_basic ([0x212A, 0x2003, 0x130] @ units ''--B-'') = units ''k-i-b''"
  by (simp add: slugify_run)

end
